theory Spec2Isabelle
  imports Complex_Main
begin

section \<open>Errors\<close>

text \<open>
  The exceptions the modelled Python code can raise.  A function that can raise returns
  \<open>error + 'a\<close>, with \<open>Inl\<close> for the exception.
\<close>

datatype error = RuntimeError | IndexError | TypeError | ValueError | KeyError

section \<open>Scalars: values with a derivative\<close>

text \<open>
  A tensor entry is a dual number: its value, and its derivative along one direction of
  perturbation of the leaves of the computation (the encoder output and the codebook), which
  is what the framework's automatic differentiation attaches to every value.  Sums, differences
  and products follow the sum and product rules.  Values are exact reals: rounding, overflow
  and non-finite inputs of machine floats are outside this model.
\<close>

datatype dual = Dual (val: real) (der: real)

instantiation dual :: comm_ring_1
begin

definition zero_dual :: dual where
  "zero_dual = Dual 0 0"

definition one_dual :: dual where
  "one_dual = Dual 1 0"

definition plus_dual :: "dual \<Rightarrow> dual \<Rightarrow> dual" where
  "plus_dual a b = Dual (val a + val b) (der a + der b)"

definition minus_dual :: "dual \<Rightarrow> dual \<Rightarrow> dual" where
  "minus_dual a b = Dual (val a - val b) (der a - der b)"

definition uminus_dual :: "dual \<Rightarrow> dual" where
  "uminus_dual a = Dual (- val a) (- der a)"

definition times_dual :: "dual \<Rightarrow> dual \<Rightarrow> dual" where
  "times_dual a b = Dual (val a * val b) (val a * der b + der a * val b)"

instance
  by standard
    (simp_all add: zero_dual_def one_dual_def plus_dual_def minus_dual_def uminus_dual_def
       times_dual_def algebra_simps)

end

text \<open>\<open>detach()\<close> keeps the value and cuts the derivative: the result is a constant.\<close>

definition detach :: "dual \<Rightarrow> dual" where
  "detach a = Dual (val a) 0"

text \<open>A Python number used in tensor arithmetic is a constant.\<close>

definition const :: "real \<Rightarrow> dual" where
  "const r = Dual r 0"

text \<open>Division of a sum by an element count (the mean).\<close>

definition ddiv :: "dual \<Rightarrow> real \<Rightarrow> dual" where
  "ddiv a r = Dual (val a / r) (der a / r)"

text \<open>
  A zero-dimensional result.  The one undefined operation the forward pass can reach from
  real inputs is the mean over no elements, \<open>0 / 0\<close>, which the framework returns as NaN;
  NaN propagates through sums and products, and every comparison with NaN is false.
\<close>

datatype scalar = NaN | Num dual

fun s_add :: "scalar \<Rightarrow> scalar \<Rightarrow> scalar" where
  "s_add (Num a) (Num b) = Num (a + b)"
| "s_add _ _ = NaN"

fun s_scale :: "real \<Rightarrow> scalar \<Rightarrow> scalar" where
  "s_scale r (Num a) = Num (const r * a)"
| "s_scale r NaN = NaN"

fun s_nonneg :: "scalar \<Rightarrow> bool" where
  "s_nonneg (Num a) = (0 \<le> val a)"
| "s_nonneg NaN = False"

section \<open>Tensors\<close>

text \<open>
  A contiguous tensor: its shape and its entries in row-major order.
\<close>

record tensor =
  shape :: "nat list"
  data :: "dual list"

definition wf_tensor :: "tensor \<Rightarrow> bool" where
  "wf_tensor t = (length (data t) = prod_list (shape t))"

text \<open>
  The row-major offset of entry \<open>[i0][i1][i2][i3]\<close> in a contiguous four-dimensional tensor
  whose last three dimensions are \<open>d1\<close>, \<open>d2\<close>, \<open>d3\<close>, and the contiguous list of the entries
  \<open>f i0 i1 i2 i3\<close> of a tensor of shape \<open>(n0, n1, n2, n3)\<close>.
\<close>

definition ravel4 :: "nat \<Rightarrow> nat \<Rightarrow> nat \<Rightarrow> nat \<Rightarrow> nat \<Rightarrow> nat \<Rightarrow> nat \<Rightarrow> nat" where
  "ravel4 d1 d2 d3 i0 i1 i2 i3 = ((i0 * d1 + i1) * d2 + i2) * d3 + i3"

definition tabulate4 :: "nat \<Rightarrow> nat \<Rightarrow> nat \<Rightarrow> nat \<Rightarrow> (nat \<Rightarrow> nat \<Rightarrow> nat \<Rightarrow> nat \<Rightarrow> 'a) \<Rightarrow> 'a list" where
  "tabulate4 n0 n1 n2 n3 f =
     [f i0 i1 i2 i3. i0 \<leftarrow> [0..<n0], i1 \<leftarrow> [0..<n1], i2 \<leftarrow> [0..<n2], i3 \<leftarrow> [0..<n3]]"

text \<open>
  \<open>t.permute(0, 2, 3, 1).contiguous()\<close>: from (B, C, H, W) to (B, H, W, C).  \<open>permute\<close>
  raises when the number of dimensions is not the number of indices given.
\<close>

definition permute_0231 :: "tensor \<Rightarrow> error + tensor" where
  "permute_0231 t =
     (case shape t of
        [B, C, H, W] \<Rightarrow>
          Inr \<lparr>shape = [B, H, W, C],
               data = tabulate4 B H W C (\<lambda>b h w c. data t ! ravel4 C H W b c h w)\<rparr>
      | _ \<Rightarrow> Inl RuntimeError)"

text \<open>\<open>t.permute(0, 3, 1, 2).contiguous()\<close>: from (B, H, W, C) back to (B, C, H, W).\<close>

definition permute_0312 :: "tensor \<Rightarrow> error + tensor" where
  "permute_0312 t =
     (case shape t of
        [B, H, W, C] \<Rightarrow>
          Inr \<lparr>shape = [B, C, H, W],
               data = tabulate4 B C H W (\<lambda>b c h w. data t ! ravel4 H W C b h w c)\<rparr>
      | _ \<Rightarrow> Inl RuntimeError)"

text \<open>
  \<open>t.view(-1, D)\<close> on a contiguous tensor: the entries regrouped into rows of \<open>D\<close>.  The
  size of the inferred dimension is the element count divided by \<open>D\<close>; the view raises when
  \<open>D\<close> is 0 or does not divide the element count.  A two-dimensional tensor is the list of
  its rows.
\<close>

definition view_rows :: "nat \<Rightarrow> tensor \<Rightarrow> error + dual list list" where
  "view_rows D t =
     (let numel = length (data t) in
      if D = 0 then Inl RuntimeError
      else if numel mod D \<noteq> 0 then Inl RuntimeError
      else Inr (map (\<lambda>n. take D (drop (n * D) (data t))) [0..<numel div D]))"

section \<open>The vector quantizer\<close>

text \<open>
  The fields of a \<open>VQ\<close> instance; \<open>weight\<close> is \<open>embedding_table.weight\<close>, the K rows of the
  codebook.  The constructor makes it a \<open>num_embeddings \<times> embedding_dim\<close> matrix, which
  \<open>wf_vq\<close> records together with K > 0 and D > 0.  All tensors are taken to have one element
  type and to live on one device.
\<close>

record vq =
  num_embeddings :: nat
  embedding_dim :: nat
  weight :: "dual list list"
  commitment_loss :: real

definition wf_vq :: "vq \<Rightarrow> bool" where
  "wf_vq m =
     (0 < num_embeddings m \<and> 0 < embedding_dim m \<and>
      length (weight m) = num_embeddings m \<and>
      list_all (\<lambda>row. length row = embedding_dim m) (weight m))"

text \<open>\<open>torch.sum(v**2)\<close> over one row, and one entry of a matrix product with a transpose.\<close>

definition sum_sq :: "dual list \<Rightarrow> dual" where
  "sum_sq v = sum_list (map (\<lambda>a. a ^ 2) v)"

definition dot :: "dual list \<Rightarrow> dual list \<Rightarrow> dual" where
  "dot u v = sum_list (map2 (*) u v)"

text \<open>
  The N \<times> K matrix \<open>all_distances\<close>: the (N, 1) column of row sums of squares of the inputs,
  plus the (K) vector of row sums of squares of the codebook, minus twice the product of
  the inputs with the transposed codebook, broadcast to (N, K).  Here in exact arithmetic;
  \<open>all_distances_fl\<close> below is the same matrix with every result rounded.
\<close>

definition all_distances :: "dual list list \<Rightarrow> dual list list \<Rightarrow> dual list list" where
  "all_distances flat W =
     map (\<lambda>q. map (\<lambda>e. sum_sq q + sum_sq e - const 2 * dot q e) W) flat"

text \<open>
  \<open>torch.argmin\<close> along one row: the index of the first minimal value.  It compares values
  only, and its integer result carries no derivative.  \<open>torch.argmin(M, dim=1)\<close> raises when
  the reduced dimension has size 0.
\<close>

fun argmin :: "real list \<Rightarrow> nat" where
  "argmin [] = 0"
| "argmin [x] = 0"
| "argmin (x # y # ys) = (let j = argmin (y # ys) in if x \<le> (y # ys) ! j then 0 else Suc j)"

definition argmin_dim1 :: "dual list list \<Rightarrow> nat \<Rightarrow> error + nat list" where
  "argmin_dim1 M K =
     (if K = 0 then Inl IndexError else Inr (map (\<lambda>row. argmin (map val row)) M))"

text \<open>
  \<open>torch.zeros(N, K)\<close> followed by \<open>scatter_(1, indexes, 1)\<close>: row n holds 1 at column
  \<open>indexes[n]\<close> and 0 elsewhere.  \<open>scatter_\<close> raises on an index that is not below K; none
  arises on a well-formed instance, where \<open>argmin\<close> runs over rows of length K.
\<close>

definition one_hot :: "nat \<Rightarrow> nat list \<Rightarrow> dual list list" where
  "one_hot K idx = map (\<lambda>i. (replicate K 0)[i := 1]) idx"

text \<open>
  \<open>torch.matmul(A, Bm)\<close> for a matrix \<open>Bm\<close> of \<open>p\<close> columns.  The inner dimensions of the two
  products of the forward pass agree on a well-formed instance.
\<close>

definition matmul :: "dual list list \<Rightarrow> dual list list \<Rightarrow> nat \<Rightarrow> dual list list" where
  "matmul A Bm p =
     map (\<lambda>row. map (\<lambda>d. sum_list (map2 (\<lambda>a brow. a * brow ! d) row Bm)) [0..<p]) A"

text \<open>
  \<open>nn.functional.mse_loss(input, target)\<close> with the default mean reduction, on two tensors
  of one shape: the mean of the squared differences, NaN when there is no element.
\<close>

definition mse_loss :: "dual list \<Rightarrow> dual list \<Rightarrow> scalar" where
  "mse_loss inp target =
     (if inp = [] then NaN
      else Num (ddiv (sum_list (map2 (\<lambda>a b. (a - b) ^ 2) inp target)) (real (length inp))))"

text \<open>
  The local variables of \<open>VQ.forward\<close> at its return: \<open>encoder_inputs\<close> is the channel-last
  copy, \<open>quantized_bhwc\<close> the quantized tensor before the straight-through line, \<open>quantized\<close>
  the tensor returned.
\<close>

record vq_locals =
  encoder_inputs :: tensor
  flattened_inputs :: "dual list list"
  indexes :: "nat list"
  encodings :: "dual list list"
  quantized_bhwc :: tensor
  first_term :: scalar
  second_term :: scalar
  loss :: scalar
  quantized :: tensor

definition forward_locals :: "vq \<Rightarrow> tensor \<Rightarrow> error + vq_locals" where
  "forward_locals m inp =
     (case permute_0231 inp of
        Inl e \<Rightarrow> Inl e
      | Inr x \<Rightarrow>
     (case view_rows (embedding_dim m) x of
        Inl e \<Rightarrow> Inl e
      | Inr flat \<Rightarrow>
     (case argmin_dim1 (all_distances flat (weight m)) (length (weight m)) of
        Inl e \<Rightarrow> Inl e
      | Inr idx \<Rightarrow>
          let enc = one_hot (num_embeddings m) idx;
              q = \<lparr>shape = shape x, data = concat (matmul enc (weight m) (embedding_dim m))\<rparr>;
              t1 = mse_loss (map detach (data q)) (data x);
              t2 = mse_loss (data q) (map detach (data x));
              beta = commitment_loss m;
              l = s_add t1 (s_scale beta t2);
              st = \<lparr>shape = shape x,
                    data = map2 (+) (data x) (map detach (map2 (-) (data q) (data x)))\<rparr>
          in (case permute_0312 st of
                Inl e \<Rightarrow> Inl e
              | Inr out \<Rightarrow>
                  Inr \<lparr>encoder_inputs = x, flattened_inputs = flat, indexes = idx,
                       encodings = enc, quantized_bhwc = q, first_term = t1, second_term = t2,
                       loss = l, quantized = out\<rparr>))))"

text \<open>\<open>VQ.forward\<close> returns the pair \<open>(quantized, loss)\<close>.\<close>

definition forward :: "vq \<Rightarrow> tensor \<Rightarrow> error + tensor \<times> scalar" where
  "forward m inp =
     (case forward_locals m inp of Inl e \<Rightarrow> Inl e | Inr l \<Rightarrow> Inr (quantized l, loss l))"

text \<open>
  The squared Euclidean distance between two real vectors, the quantity the nearest-neighbour
  property is stated with.
\<close>

definition sq_euclid :: "real list \<Rightarrow> real list \<Rightarrow> real" where
  "sq_euclid u v = sum_list (map2 (\<lambda>a b. (a - b) ^ 2) u v)"

section \<open>Rounded arithmetic\<close>

text \<open>
  The definitions above compute in exact reals.  The source computes in binary32, where
  every arithmetic result is rounded.  The definitions of this section follow the same lines
  of \<open>VQ.forward\<close> on the values of the tensors, with every arithmetic result passed through
  a rounding \<open>rnd\<close>: \<open>rnd = id\<close> is exact arithmetic, \<open>rnd = round32\<close> is binary32.  A rounding
  maps reals to reals: overflow to infinity and NaN are outside this model.

  \<open>rne\<close> rounds a real to the nearest integer, a tie to the even one.  \<open>round32\<close> rounds to
  the nearest number with a significand of 24 bits, a tie to the even significand, the
  rounding of binary32 with the range of the exponent unbounded (no overflow, no subnormal
  numbers): in the binade \<open>[2^e, 2^(e+1))\<close> the numbers of binary32 are the multiples of
  \<open>2^(e-23)\<close>.
\<close>

definition rne :: "real \<Rightarrow> int" where
  "rne y =
     (let f = \<lfloor>y\<rfloor>; d = y - of_int f
      in if d < 1 / 2 then f else if 1 / 2 < d then f + 1 else if even f then f else f + 1)"

definition round32 :: "real \<Rightarrow> real" where
  "round32 x =
     (if x = 0 then 0
      else let u = 2 powr (of_int \<lfloor>log 2 \<bar>x\<bar>\<rfloor> - 23) in of_int (rne (x / u)) * u)"

text \<open>
  \<open>torch.sum\<close> over one row, accumulated from 0 with every partial sum rounded.  The
  framework does not fix the order of accumulation; this is the order of the indices.  A
  sum of one element has no order.
\<close>

fun sum_acc :: "(real \<Rightarrow> real) \<Rightarrow> real \<Rightarrow> real list \<Rightarrow> real" where
  "sum_acc rnd acc [] = acc"
| "sum_acc rnd acc (x # xs) = sum_acc rnd (rnd (acc + x)) xs"

text \<open>
  \<open>torch.sum(v**2)\<close> over one row and one entry of the product with the transposed codebook,
  rounded; then one entry of \<open>all_distances\<close>, evaluated as the source writes it: the sum of
  the two sums of squares first, then minus twice the product.
\<close>

definition sum_sq_fl :: "(real \<Rightarrow> real) \<Rightarrow> real list \<Rightarrow> real" where
  "sum_sq_fl rnd v = sum_acc rnd 0 (map (\<lambda>a. rnd (a * a)) v)"

definition dot_fl :: "(real \<Rightarrow> real) \<Rightarrow> real list \<Rightarrow> real list \<Rightarrow> real" where
  "dot_fl rnd u v = sum_acc rnd 0 (map2 (\<lambda>a b. rnd (a * b)) u v)"

definition distance_fl :: "(real \<Rightarrow> real) \<Rightarrow> real list \<Rightarrow> real list \<Rightarrow> real" where
  "distance_fl rnd q e = rnd (rnd (sum_sq_fl rnd q + sum_sq_fl rnd e) - rnd (2 * dot_fl rnd q e))"

definition all_distances_fl :: "(real \<Rightarrow> real) \<Rightarrow> real list list \<Rightarrow> real list list \<Rightarrow> real list list" where
  "all_distances_fl rnd flat W = map (\<lambda>q. map (distance_fl rnd q) W) flat"

text \<open>
  The indices \<open>torch.argmin\<close> selects from the rounded distances.  The flattened inputs are
  those of the pass: \<open>permute\<close> and \<open>view\<close> move entries and compute nothing.
\<close>

definition indexes_fl :: "(real \<Rightarrow> real) \<Rightarrow> vq \<Rightarrow> vq_locals \<Rightarrow> nat list" where
  "indexes_fl rnd m l =
     map argmin (all_distances_fl rnd (map (map val) (flattened_inputs l)) (map (map val) (weight m)))"

text \<open>
  The one-hot matrix, its rounded product with the codebook, and the values of
  \<open>quantized_bhwc\<close> before the straight-through line.
\<close>

definition one_hot_fl :: "nat \<Rightarrow> nat list \<Rightarrow> real list list" where
  "one_hot_fl K idx = map (\<lambda>i. (replicate K 0)[i := 1]) idx"

definition matmul_fl :: "(real \<Rightarrow> real) \<Rightarrow> real list list \<Rightarrow> real list list \<Rightarrow> nat \<Rightarrow> real list list" where
  "matmul_fl rnd A Bm p =
     map (\<lambda>row. map (\<lambda>d. sum_acc rnd 0 (map2 (\<lambda>a brow. rnd (a * brow ! d)) row Bm)) [0..<p]) A"

definition quantized_bhwc_fl :: "(real \<Rightarrow> real) \<Rightarrow> vq \<Rightarrow> vq_locals \<Rightarrow> real list" where
  "quantized_bhwc_fl rnd m l =
     concat (matmul_fl rnd (one_hot_fl (num_embeddings m) (indexes_fl rnd m l))
               (map (map val) (weight m)) (embedding_dim m))"

text \<open>
  The straight-through line \<open>encoder_inputs + (quantized_bhwc - encoder_inputs).detach()\<close>
  on values, the difference rounded, then the sum rounded; and the values of the tensor
  returned as \<open>quantized\<close>, back in (B, C, H, W) order.
\<close>

definition straight_through_fl :: "(real \<Rightarrow> real) \<Rightarrow> real list \<Rightarrow> real list \<Rightarrow> real list" where
  "straight_through_fl rnd xs qs = map2 (\<lambda>x q. rnd (x + rnd (q - x))) xs qs"

definition quantized_fl :: "(real \<Rightarrow> real) \<Rightarrow> vq \<Rightarrow> vq_locals \<Rightarrow> real list" where
  "quantized_fl rnd m l =
     (case shape (encoder_inputs l) of
        [B, H, W, C] \<Rightarrow>
          tabulate4 B C H W (\<lambda>b c h w.
            straight_through_fl rnd (map val (data (encoder_inputs l))) (quantized_bhwc_fl rnd m l)
              ! ravel4 H W C b h w c)
      | _ \<Rightarrow> [])"

section \<open>The PixelCNN mask: \<open>conv_mask_abstract\<close>\<close>

text \<open>
  Indexing one axis of length \<open>n\<close> of a numpy array with a Python integer: indices
  \<open>0 \<le> i < n\<close> are positions, indices \<open>-n \<le> i < 0\<close> count from the end, anything else
  raises \<open>IndexError\<close>.
\<close>

definition np_index :: "nat \<Rightarrow> int \<Rightarrow> error + nat" where
  "np_index n i =
     (if 0 \<le> i \<and> i < int n then Inr (nat i)
      else if - int n \<le> i \<and> i < 0 then Inr (nat (int n + i))
      else Inl IndexError)"

text \<open>
  The two nested loops of \<open>conv_mask_abstract\<close> over \<open>range(size)\<close>: entry \<open>[i][j]\<close> of the
  zero grid becomes 1 where \<open>j < x or i < y\<close>.
\<close>

definition mask_loops :: "nat \<Rightarrow> int \<Rightarrow> int \<Rightarrow> real list list" where
  "mask_loops n x y =
     map (\<lambda>i. map (\<lambda>j. if int j < x \<or> int i < y then 1 else 0) [0..<n]) [0..<n]"

text \<open>
  \<open>conv_mask_abstract(size, current_pos, mask_type)\<close>, with \<open>sz\<close> for the parameter
  \<open>size\<close>.  \<open>np.zeros((size, size))\<close> raises
  \<open>ValueError\<close> on a negative size; the final assignment \<open>mask_grid[y][x] = \<dots>\<close> indexes first
  the row, then the column.  Every \<open>mask_type\<close> other than the string \<open>"B"\<close> takes the
  \<open>else\<close> branch.
\<close>

definition conv_mask_abstract :: "int \<Rightarrow> int \<times> int \<Rightarrow> string \<Rightarrow> error + real list list" where
  "conv_mask_abstract sz current_pos mask_type =
     (if sz < 0 then Inl ValueError
      else
        let n = nat sz;
            x = fst current_pos;
            y = snd current_pos;
            mask_grid = mask_loops n x y
        in case np_index n y of
             Inl e \<Rightarrow> Inl e
           | Inr yi \<Rightarrow>
               (case np_index n x of
                  Inl e \<Rightarrow> Inl e
                | Inr xi \<Rightarrow>
                    Inr (mask_grid[yi := (mask_grid ! yi)[xi := (if mask_type = ''B'' then 1 else 0)]])))"

section \<open>Notions the properties are stated with\<close>

text \<open>
  Entry \<open>t[i0][i1][i2][i3]\<close> of a four-dimensional tensor, and the vector \<open>t[b, :, h, w]\<close> of
  the channels at one batch and spatial position.
\<close>

definition entry4 :: "tensor \<Rightarrow> nat \<Rightarrow> nat \<Rightarrow> nat \<Rightarrow> nat \<Rightarrow> dual" where
  "entry4 t i0 i1 i2 i3 = data t ! ravel4 (shape t ! 1) (shape t ! 2) (shape t ! 3) i0 i1 i2 i3"

definition channels :: "tensor \<Rightarrow> nat \<Rightarrow> nat \<Rightarrow> nat \<Rightarrow> dual list" where
  "channels t b h w = map (\<lambda>c. entry4 t b c h w) [0..<shape t ! 1]"

text \<open>The mean squared difference of two real vectors of one length.\<close>

definition mse_real :: "real list \<Rightarrow> real list \<Rightarrow> real" where
  "mse_real u v = sq_euclid u v / real (length u)"

section \<open>The constructor of \<open>MaskedConv2d\<close>\<close>

text \<open>
  The Python values the constructor handles after the parent constructor has run:
  \<open>self.weight.shape\<close> is a \<open>torch.Size\<close>, a tuple of integers, and a tuple has no
  \<open>__call__\<close>; a bound method called with no argument returns its result.  Calling a value
  that is not callable raises \<open>TypeError\<close>.
\<close>

datatype pyval = Size "nat list" | Method pyval

definition py_call :: "pyval \<Rightarrow> error + pyval" where
  "py_call f = (case f of Method r \<Rightarrow> Inr r | Size _ \<Rightarrow> Inl TypeError)"

text \<open>
  The unpacking \<open>b, c, h, w = v\<close>: a sequence of another length raises \<open>ValueError\<close>, a
  value that is not iterable raises \<open>TypeError\<close>.
\<close>

definition unpack4 :: "pyval \<Rightarrow> error + nat \<times> nat \<times> nat \<times> nat" where
  "unpack4 v =
     (case v of
        Size [b, c, h, w] \<Rightarrow> Inr (b, c, h, w)
      | Size _ \<Rightarrow> Inl ValueError
      | Method _ \<Rightarrow> Inl TypeError)"

text \<open>
  What the constructor reads and writes of the module: the shape of the convolution weight,
  the names of its plain attributes and of its registered buffers, and the attribute
  \<open>mask\<close>.
\<close>

record conv2d =
  weight_shape :: "nat list"
  attribute_names :: "string list"
  buffer_names :: "string list"
  mask :: "real list list"

text \<open>
  \<open>self.mask = \<dots>\<close> with a numpy array on the right: \<open>nn.Module.__setattr__\<close> refuses a
  value that is not a tensor under the name of a registered buffer (\<open>TypeError\<close>), and
  otherwise stores a plain attribute.
\<close>

definition set_mask :: "real list list \<Rightarrow> conv2d \<Rightarrow> error + conv2d" where
  "set_mask g self =
     (if ''mask'' \<in> set (buffer_names self) then Inl TypeError
      else Inr (self\<lparr>attribute_names := ''mask'' # attribute_names self, mask := g\<rparr>))"

text \<open>
  \<open>self.register_buffer(name, tensor)\<close> raises \<open>KeyError\<close> when the module already has an
  attribute of that name that is not a buffer.
\<close>

definition register_buffer :: "string \<Rightarrow> conv2d \<Rightarrow> error + conv2d" where
  "register_buffer name self =
     (if name \<in> set (attribute_names self) \<and> name \<notin> set (buffer_names self) then Inl KeyError
      else Inr (self\<lparr>buffer_names := name # buffer_names self\<rparr>))"

text \<open>
  The constructor from the unpacking on: the lines after the call \<open>self.weight.shape()\<close>
  has returned \<open>v\<close>.
\<close>

definition MaskedConv2d_init_rest :: "string \<Rightarrow> conv2d \<Rightarrow> pyval \<Rightarrow> error + conv2d" where
  "MaskedConv2d_init_rest mask_type self v =
     (case unpack4 v of
        Inl e \<Rightarrow> Inl e
      | Inr (b, c, h, w) \<Rightarrow>
          let centre_h = h div 2;
              centre_w = w div 2
          in (case conv_mask_abstract (int h) (int centre_w, int centre_h) mask_type of
                Inl e \<Rightarrow> Inl e
              | Inr g \<Rightarrow>
                  (case set_mask g self of
                     Inl e \<Rightarrow> Inl e
                   | Inr self' \<Rightarrow> register_buffer ''mask'' self')))"

text \<open>
  \<open>MaskedConv2d.__init__(mask_type, *args, **kwargs)\<close>.  The outcome of the parent
  constructor \<open>nn.Conv2d.__init__(*args, **kwargs)\<close> is a parameter: an exception, which
  propagates, or the initialised module.
\<close>

definition MaskedConv2d_init :: "string \<Rightarrow> error + conv2d \<Rightarrow> error + conv2d" where
  "MaskedConv2d_init mask_type super_init =
     (case super_init of
        Inl e \<Rightarrow> Inl e
      | Inr self \<Rightarrow>
          (case py_call (Size (weight_shape self)) of
             Inl e \<Rightarrow> Inl e
           | Inr v \<Rightarrow> MaskedConv2d_init_rest mask_type self v))"

section \<open>Example data\<close>

text \<open>
  The codebook of the scenario K = 4, D = 2 with constant entries, and the same codebook
  perturbed in its first entry.
\<close>

definition example_vq :: vq where
  "example_vq =
     \<lparr>num_embeddings = 4, embedding_dim = 2,
      weight = [[Dual 0 0, Dual 0 0], [Dual 10 0, Dual 10 0],
                [Dual (- 10) 0, Dual 10 0], [Dual 10 0, Dual (- 10) 0]],
      commitment_loss = 1 / 4\<rparr>"

definition moved_vq :: vq where
  "moved_vq =
     \<lparr>num_embeddings = 4, embedding_dim = 2,
      weight = [[Dual 0 1, Dual 0 0], [Dual 10 0, Dual 10 0],
                [Dual (- 10) 0, Dual 10 0], [Dual 10 0, Dual (- 10) 0]],
      commitment_loss = 1 / 4\<rparr>"

text \<open>
  An input of shape (1, 2, 1, 2) with the channel vectors (1, 1) and (9, 8), perturbed in its
  first entry, and the same input unperturbed; the locals of the two passes.
\<close>

definition example_in :: tensor where
  "example_in = \<lparr>shape = [1, 2, 1, 2], data = [Dual 1 1, Dual 9 0, Dual 1 0, Dual 8 0]\<rparr>"

definition still_in :: tensor where
  "still_in = \<lparr>shape = [1, 2, 1, 2], data = [Dual 1 0, Dual 9 0, Dual 1 0, Dual 8 0]\<rparr>"

definition example_locals :: vq_locals where
  "example_locals =
     \<lparr>encoder_inputs = \<lparr>shape = [1, 1, 2, 2], data = [Dual 1 1, Dual 1 0, Dual 9 0, Dual 8 0]\<rparr>,
      flattened_inputs = [[Dual 1 1, Dual 1 0], [Dual 9 0, Dual 8 0]],
      indexes = [0, 1],
      encodings = [[Dual 1 0, Dual 0 0, Dual 0 0, Dual 0 0], [Dual 0 0, Dual 1 0, Dual 0 0, Dual 0 0]],
      quantized_bhwc = \<lparr>shape = [1, 1, 2, 2], data = [Dual 0 0, Dual 0 0, Dual 10 0, Dual 10 0]\<rparr>,
      first_term = Num (Dual (7 / 4) (1 / 2)),
      second_term = Num (Dual (7 / 4) 0),
      loss = Num (Dual (35 / 16) (1 / 2)),
      quantized = \<lparr>shape = [1, 2, 1, 2], data = [Dual 0 1, Dual 10 0, Dual 0 0, Dual 10 0]\<rparr>\<rparr>"

definition moved_locals :: vq_locals where
  "moved_locals =
     \<lparr>encoder_inputs = \<lparr>shape = [1, 1, 2, 2], data = [Dual 1 0, Dual 1 0, Dual 9 0, Dual 8 0]\<rparr>,
      flattened_inputs = [[Dual 1 0, Dual 1 0], [Dual 9 0, Dual 8 0]],
      indexes = [0, 1],
      encodings = [[Dual 1 0, Dual 0 0, Dual 0 0, Dual 0 0], [Dual 0 0, Dual 1 0, Dual 0 0, Dual 0 0]],
      quantized_bhwc = \<lparr>shape = [1, 1, 2, 2], data = [Dual 0 1, Dual 0 0, Dual 10 0, Dual 10 0]\<rparr>,
      first_term = Num (Dual (7 / 4) 0),
      second_term = Num (Dual (7 / 4) (- (1 / 2))),
      loss = Num (Dual (35 / 16) (- (1 / 8))),
      quantized = \<lparr>shape = [1, 2, 1, 2], data = [Dual 0 0, Dual 10 0, Dual 0 0, Dual 10 0]\<rparr>\<rparr>"

text \<open>
  A query at equal distance from the codebook rows 0 and 1; an input with no element; an
  input of one channel, which is not the embedding dimension.
\<close>

definition tie_in :: tensor where
  "tie_in = \<lparr>shape = [1, 2, 1, 1], data = [Dual 5 0, Dual 5 0]\<rparr>"

definition empty_in :: tensor where
  "empty_in = \<lparr>shape = [0, 2, 1, 1], data = []\<rparr>"

definition empty_locals :: vq_locals where
  "empty_locals =
     \<lparr>encoder_inputs = \<lparr>shape = [0, 1, 1, 2], data = []\<rparr>,
      flattened_inputs = [], indexes = [], encodings = [],
      quantized_bhwc = \<lparr>shape = [0, 1, 1, 2], data = []\<rparr>,
      first_term = NaN, second_term = NaN, loss = NaN,
      quantized = \<lparr>shape = [0, 2, 1, 1], data = []\<rparr>\<rparr>"

definition one_channel_in :: tensor where
  "one_channel_in = \<lparr>shape = [1, 1, 1, 2], data = [Dual 1 0, Dual 2 0]\<rparr>"



definition absorb_vq :: vq where
  "absorb_vq = \<lparr>num_embeddings = 1, embedding_dim = 1,
      weight = [[Dual 1 0]], commitment_loss = 1 / 4\<rparr>"

definition absorb_in :: tensor where
  "absorb_in = \<lparr>shape = [1, 1, 1, 1], data = [Dual 33554432 0]\<rparr>"



definition absorb_locals :: vq_locals where
  "absorb_locals =
     \<lparr>encoder_inputs = \<lparr>shape = [1, 1, 1, 1], data = [Dual 33554432 0]\<rparr>,
      flattened_inputs = [[Dual 33554432 0]], indexes = [0],
      encodings = [[Dual 1 0]],
      quantized_bhwc = \<lparr>shape = [1, 1, 1, 1], data = [Dual 1 0]\<rparr>,
      first_term = Num (Dual 1125899839733761 0),
      second_term = Num (Dual 1125899839733761 0),
      loss = Num (Dual (5629499198668805 / 4) 0),
      quantized = \<lparr>shape = [1, 1, 1, 1], data = [Dual 1 0]\<rparr>\<rparr>"

section \<open>Arithmetic of dual numbers\<close>

lemma val_zero [simp]: "val 0 = 0" and der_zero [simp]: "der 0 = 0"
  by (simp_all add: zero_dual_def)

lemma val_one [simp]: "val 1 = 1" and der_one [simp]: "der 1 = 0"
  by (simp_all add: one_dual_def)

lemma val_plus [simp]: "val (a + b) = val a + val b"
  and der_plus [simp]: "der (a + b) = der a + der b"
  by (simp_all add: plus_dual_def)

lemma val_minus [simp]: "val (a - b) = val a - val b"
  and der_minus [simp]: "der (a - b) = der a - der b"
  by (simp_all add: minus_dual_def)

lemma val_times [simp]: "val (a * b) = val a * val b"
  and der_times [simp]: "der (a * b) = val a * der b + der a * val b"
  by (simp_all add: times_dual_def)

lemma val_detach [simp]: "val (detach a) = val a" and der_detach [simp]: "der (detach a) = 0"
  by (simp_all add: detach_def)

lemma val_const [simp]: "val (const r) = r" and der_const [simp]: "der (const r) = 0"
  by (simp_all add: const_def)

lemma val_ddiv [simp]: "val (ddiv a r) = val a / r" and der_ddiv [simp]: "der (ddiv a r) = der a / r"
  by (simp_all add: ddiv_def)

lemma val_power2 [simp]: "val (a ^ 2) = (val a) ^ 2"
  and der_power2 [simp]: "der (a ^ 2) = 2 * val a * der a"
  by (simp_all add: power2_eq_square)

lemma val_sum_list: "val (sum_list xs) = sum_list (map val xs)"
  by (induction xs) simp_all

lemma der_sum_list: "der (sum_list xs) = sum_list (map der xs)"
  by (induction xs) simp_all

lemma dual_eqI: "val a = val b \<Longrightarrow> der a = der b \<Longrightarrow> a = b"
  by (cases a; cases b) simp

subsection \<open>Uniform concatenations\<close>

lemma length_concat_uniform:
  "list_all (\<lambda>xs. length xs = n) xss \<Longrightarrow> length (concat xss) = length xss * n"
  by (induction xss) simp_all

lemma nth_concat_uniform:
  "list_all (\<lambda>xs. length xs = n) xss \<Longrightarrow> i < length xss \<Longrightarrow> j < n \<Longrightarrow>
     concat xss ! (i * n + j) = xss ! i ! j"
proof (induction xss arbitrary: i)
  case Nil
  then show ?case by simp
next
  case (Cons xs xss)
  show ?case
  proof (cases i)
    case 0
    with Cons.prems show ?thesis by (simp add: nth_append)
  next
    case (Suc k)
    with Cons.prems have "concat xss ! (k * n + j) = xss ! k ! j"
      by (intro Cons.IH) simp_all
    moreover have "Suc k * n + j = length xs + (k * n + j)"
      using Cons.prems by simp
    ultimately show ?thesis
      using Suc by (simp only: concat.simps nth_append_length_plus nth_Cons_Suc)
  qed
qed

lemma unravel2:
  assumes "k < m * (n::nat)"
  shows "\<exists>i<m. \<exists>j<n. k = i * n + j"
proof -
  have n: "0 < n" using assms by (cases n) simp_all
  have "k div n < m" using assms by (simp add: less_mult_imp_div_less)
  moreover have "k mod n < n" using n by simp
  moreover have "k = k div n * n + k mod n" by simp
  ultimately show ?thesis by blast
qed

subsection \<open>Contiguous four-dimensional tensors\<close>

lemma tabulate4_alt:
  "tabulate4 n0 n1 n2 n3 f =
     concat (map (\<lambda>i0. concat (map (\<lambda>i1. concat (map (\<lambda>i2. map (f i0 i1 i2) [0..<n3]) [0..<n2])) [0..<n1])) [0..<n0])"
  unfolding tabulate4_def
  by (induction n3) (simp_all add: map_concat)


lemma length_concat_map_upt:
  assumes "\<And>i. i < m \<Longrightarrow> length (F i) = n"
  shows "length (concat (map F [0..<m])) = m * n"
proof -
  have "list_all (\<lambda>xs. length xs = n) (map F [0..<m])"
    using assms by (simp add: list_all_iff)
  from length_concat_uniform [OF this] show ?thesis by simp
qed

lemma nth_concat_map_upt:
  assumes "\<And>i. i < m \<Longrightarrow> length (F i) = n" and "i < m" and "j < n"
  shows "concat (map F [0..<m]) ! (i * n + j) = F i ! j"
proof -
  have "list_all (\<lambda>xs. length xs = n) (map F [0..<m])"
    using assms(1) by (simp add: list_all_iff)
  from nth_concat_uniform [OF this, of i j] assms(2,3) show ?thesis by simp
qed

lemma length_tabulate4 [simp]: "length (tabulate4 n0 n1 n2 n3 f) = n0 * n1 * n2 * n3"
proof -
  have l2: "length (concat (map (\<lambda>i2. map (f i0 i1 i2) [0..<n3]) [0..<n2])) = n2 * n3" for i0 i1
    by (rule length_concat_map_upt) simp
  have l1: "length (concat (map (\<lambda>i1. concat (map (\<lambda>i2. map (f i0 i1 i2) [0..<n3]) [0..<n2])) [0..<n1]))
              = n1 * (n2 * n3)" for i0
    by (rule length_concat_map_upt) (rule l2)
  have "length (tabulate4 n0 n1 n2 n3 f) = n0 * (n1 * (n2 * n3))"
    unfolding tabulate4_alt by (rule length_concat_map_upt) (rule l1)
  then show ?thesis by (simp add: mult.assoc)
qed

lemma nth_tabulate4:
  assumes "i0 < n0" "i1 < n1" "i2 < n2" "i3 < n3"
  shows "tabulate4 n0 n1 n2 n3 f ! ravel4 n1 n2 n3 i0 i1 i2 i3 = f i0 i1 i2 i3"
proof -
  let ?L2 = "\<lambda>i0 i1. concat (map (\<lambda>i2. map (f i0 i1 i2) [0..<n3]) [0..<n2])"
  let ?L1 = "\<lambda>i0. concat (map (?L2 i0) [0..<n1])"
  have l2: "length (?L2 j0 j1) = n2 * n3" for j0 j1
    by (rule length_concat_map_upt) simp
  have l1: "length (?L1 j0) = n1 * (n2 * n3)" for j0
    by (rule length_concat_map_upt) (rule l2)
  have b2: "i2 * n3 + i3 < n2 * n3"
  proof -
    have "i2 * n3 + i3 < Suc i2 * n3" using assms by simp
    also have "\<dots> \<le> n2 * n3" using assms by (intro mult_le_mono1) simp
    finally show ?thesis .
  qed
  have b1: "i1 * (n2 * n3) + (i2 * n3 + i3) < n1 * (n2 * n3)"
  proof -
    have "i1 * (n2 * n3) + (i2 * n3 + i3) < Suc i1 * (n2 * n3)" using b2 by simp
    also have "\<dots> \<le> n1 * (n2 * n3)" using assms by (intro mult_le_mono1) simp
    finally show ?thesis .
  qed
  have r: "ravel4 n1 n2 n3 i0 i1 i2 i3 = i0 * (n1 * (n2 * n3)) + (i1 * (n2 * n3) + (i2 * n3 + i3))"
    by (simp add: ravel4_def algebra_simps)
  have "tabulate4 n0 n1 n2 n3 f ! ravel4 n1 n2 n3 i0 i1 i2 i3
          = ?L1 i0 ! (i1 * (n2 * n3) + (i2 * n3 + i3))"
    unfolding tabulate4_alt r by (rule nth_concat_map_upt) (use l1 assms b1 in auto)
  also have "\<dots> = ?L2 i0 i1 ! (i2 * n3 + i3)"
    by (rule nth_concat_map_upt) (use l2 assms b2 in auto)
  also have "\<dots> = map (f i0 i1 i2) [0..<n3] ! i3"
    by (rule nth_concat_map_upt) (use assms in auto)
  also have "\<dots> = f i0 i1 i2 i3"
    using assms by simp
  finally show ?thesis .
qed

lemma unravel4:
  assumes "k < n0 * n1 * n2 * n3"
  shows "\<exists>i0<n0. \<exists>i1<n1. \<exists>i2<n2. \<exists>i3<n3. k = ravel4 n1 n2 n3 i0 i1 i2 i3"
proof -
  from unravel2 [OF assms] obtain a i3 where
    a: "a < n0 * n1 * n2" and i3: "i3 < n3" and k: "k = a * n3 + i3" by blast
  from unravel2 [OF a] obtain c i2 where
    c: "c < n0 * n1" and i2: "i2 < n2" and a': "a = c * n2 + i2" by blast
  from unravel2 [OF c] obtain i0 i1 where
    i0: "i0 < n0" and i1: "i1 < n1" and c': "c = i0 * n1 + i1" by blast
  have "k = ravel4 n1 n2 n3 i0 i1 i2 i3"
    by (simp add: ravel4_def k a' c')
  with i0 i1 i2 i3 show ?thesis by blast
qed

lemma tabulate4_eqI:
  assumes len: "length xs = n0 * n1 * n2 * n3"
    and nth: "\<And>i0 i1 i2 i3. i0 < n0 \<Longrightarrow> i1 < n1 \<Longrightarrow> i2 < n2 \<Longrightarrow> i3 < n3 \<Longrightarrow>
                 f i0 i1 i2 i3 = xs ! ravel4 n1 n2 n3 i0 i1 i2 i3"
  shows "tabulate4 n0 n1 n2 n3 f = xs"
proof (rule nth_equalityI)
  show "length (tabulate4 n0 n1 n2 n3 f) = length xs"
    by (simp add: len)
next
  fix k assume "k < length (tabulate4 n0 n1 n2 n3 f)"
  then have "k < n0 * n1 * n2 * n3" by simp
  from unravel4 [OF this] obtain i0 i1 i2 i3 where
    b: "i0 < n0" "i1 < n1" "i2 < n2" "i3 < n3" and k: "k = ravel4 n1 n2 n3 i0 i1 i2 i3"
    by blast
  show "tabulate4 n0 n1 n2 n3 f ! k = xs ! k"
    unfolding k using b by (simp add: nth_tabulate4 nth)
qed

lemma ravel4_less:
  assumes "i0 < n0" "i1 < n1" "i2 < n2" "i3 < n3"
  shows "ravel4 n1 n2 n3 i0 i1 i2 i3 < n0 * n1 * n2 * n3"
proof -
  have "i0 * n1 + i1 < Suc i0 * n1" using assms by simp
  also have "\<dots> \<le> n0 * n1" using assms by (intro mult_le_mono1) simp
  finally have a: "i0 * n1 + i1 < n0 * n1" .
  have "(i0 * n1 + i1) * n2 + i2 < Suc (i0 * n1 + i1) * n2" using assms by simp
  also have "\<dots> \<le> n0 * n1 * n2" using a by (intro mult_le_mono1) simp
  finally have b: "(i0 * n1 + i1) * n2 + i2 < n0 * n1 * n2" .
  have "((i0 * n1 + i1) * n2 + i2) * n3 + i3 < Suc ((i0 * n1 + i1) * n2 + i2) * n3"
    using assms by simp
  also have "\<dots> \<le> n0 * n1 * n2 * n3" using b by (intro mult_le_mono1) simp
  finally show ?thesis by (simp add: ravel4_def)
qed

lemma map_tabulate4: "map g (tabulate4 n0 n1 n2 n3 f) = tabulate4 n0 n1 n2 n3 (\<lambda>a b c d. g (f a b c d))"
  by (rule sym, rule tabulate4_eqI) (simp_all add: nth_tabulate4 ravel4_less)


subsection \<open>argmin\<close>

lemma argmin_less: "xs \<noteq> [] \<Longrightarrow> argmin xs < length xs"
  by (induction xs rule: argmin.induct) (simp_all add: Let_def)

lemma argmin_le: "k < length xs \<Longrightarrow> xs ! argmin xs \<le> xs ! k"
proof (induction xs arbitrary: k rule: argmin.induct)
  case 1
  then show ?case by simp
next
  case (2 x)
  then show ?case by simp
next
  case (3 x y ys)
  let ?j = "argmin (y # ys)"
  show ?case
  proof (cases k)
    case 0
    then show ?thesis by (simp add: Let_def)
  next
    case (Suc k')
    with "3.prems" have "(y # ys) ! ?j \<le> (y # ys) ! k'"
      by (intro "3.IH") simp_all
    with Suc show ?thesis
      by (cases "x \<le> (y # ys) ! ?j") (simp_all add: Let_def)
  qed
qed

lemma argmin_first: "k < argmin xs \<Longrightarrow> xs ! argmin xs < xs ! k"
proof (induction xs arbitrary: k rule: argmin.induct)
  case 1
  then show ?case by simp
next
  case (2 x)
  then show ?case by simp
next
  case (3 x y ys)
  let ?j = "argmin (y # ys)"
  from "3.prems" have nle: "\<not> x \<le> (y # ys) ! ?j" and k: "k < Suc ?j"
    by (simp_all add: Let_def split: if_splits)
  show ?case
  proof (cases k)
    case 0
    with nle show ?thesis by (simp add: Let_def)
  next
    case (Suc k')
    with k have "(y # ys) ! ?j < (y # ys) ! k'"
      by (intro "3.IH") simp_all
    with Suc nle show ?thesis by (simp add: Let_def)
  qed
qed

subsection \<open>Distances\<close>

lemma val_all_distances_entry:
  "length q = length e \<Longrightarrow>
     val (sum_sq q + sum_sq e - const 2 * dot q e) = sq_euclid (map val q) (map val e)"
proof (induction q e rule: list_induct2)
  case Nil
  then show ?case by (simp add: sum_sq_def dot_def sq_euclid_def)
next
  case (Cons a q b e)
  then show ?case
    by (simp add: sum_sq_def dot_def sq_euclid_def power2_eq_square algebra_simps)
qed

lemma sq_euclid_nonneg: "0 \<le> sq_euclid u v"
  unfolding sq_euclid_def by (rule sum_list_nonneg) auto

subsection \<open>The one-hot product\<close>

lemma sum_list_zero_row:
  "sum_list (map2 (\<lambda>a brow. a * brow ! d) (replicate n (0::dual)) W) = 0"
proof (induction W arbitrary: n)
  case Nil
  then show ?case by simp
next
  case (Cons r W)
  then show ?case by (cases n) simp_all
qed

lemma sum_list_one_hot_row:
  "i < length W \<Longrightarrow> length W = K \<Longrightarrow>
     sum_list (map2 (\<lambda>a brow. a * brow ! d) ((replicate K (0::dual))[i := 1]) W) = W ! i ! d"
proof (induction W arbitrary: i K)
  case Nil
  then show ?case by simp
next
  case (Cons r W)
  then obtain K' where K: "K = Suc K'" and K': "length W = K'" by (cases K) auto
  show ?case
  proof (cases i)
    case 0
    then show ?thesis by (simp add: K sum_list_zero_row)
  next
    case (Suc j)
    with Cons.prems K' have "sum_list (map2 (\<lambda>a brow. a * brow ! d) ((replicate K' 0)[j := 1]) W) = W ! j ! d"
      by (intro Cons.IH) simp_all
    with Suc show ?thesis by (simp add: K)
  qed
qed

lemma matmul_one_hot:
  assumes "list_all (\<lambda>i. i < length W) idx" and "list_all (\<lambda>row. length row = D) W"
  shows "matmul (one_hot (length W) idx) W D = map (\<lambda>i. W ! i) idx"
proof -
  have "map (\<lambda>d. sum_list (map2 (\<lambda>a brow. a * brow ! d) ((replicate (length W) 0)[i := 1]) W)) [0..<D] = W ! i"
    if "i < length W" for i
  proof -
    have "length (W ! i) = D"
      using assms(2) that by (simp add: list_all_length)
    then have "W ! i = map (\<lambda>d. W ! i ! d) [0..<D]"
      by (metis map_nth)
    then show ?thesis
      using that by (simp add: sum_list_one_hot_row)
  qed
  then show ?thesis
    using assms(1) by (simp add: matmul_def one_hot_def list_all_iff)
qed

subsection \<open>Views\<close>

lemma view_rows_Inr:
  assumes "view_rows D t = Inr flat"
  shows "0 < D" and "length (data t) mod D = 0" and "length flat = length (data t) div D"
    and "\<And>n. n < length flat \<Longrightarrow> flat ! n = take D (drop (n * D) (data t))"
  using assms by (auto simp: view_rows_def Let_def split: if_splits)

lemma view_rows_returns:
  "0 < D \<Longrightarrow> length (data t) mod D = 0 \<Longrightarrow> \<exists>flat. view_rows D t = Inr flat"
  by (simp add: view_rows_def)

lemma view_rows_nth:
  assumes "view_rows D t = Inr flat" and "n < length flat"
  shows "flat ! n = map (\<lambda>c. data t ! (n * D + c)) [0..<D]"
proof -
  from view_rows_Inr [OF assms(1)] assms(2)
  have D: "0 < D" and m: "length (data t) mod D = 0" and n: "n < length (data t) div D"
    and f: "flat ! n = take D (drop (n * D) (data t))"
    by auto
  have "length (data t) = length (data t) div D * D"
    using m by (metis mult.commute mult_div_mod_eq add.right_neutral)
  moreover have "Suc n * D \<le> length (data t) div D * D"
    using n by (intro mult_le_mono1) simp
  ultimately have le: "n * D + D \<le> length (data t)" by simp
  show ?thesis
    unfolding f by (rule nth_equalityI) (use le in \<open>auto simp: ac_simps\<close>)
qed


subsection \<open>The structure of a forward pass\<close>

lemma permute_0231_Inr:
  "permute_0231 t = Inr x \<Longrightarrow>
     \<exists>B C H W. shape t = [B, C, H, W] \<and>
       x = \<lparr>shape = [B, H, W, C], data = tabulate4 B H W C (\<lambda>b h w c. data t ! ravel4 C H W b c h w)\<rparr>"
  by (auto simp: permute_0231_def split: list.splits)

lemma permute_0231_shape4:
  "shape t = [B, C, H, W] \<Longrightarrow>
     permute_0231 t = Inr \<lparr>shape = [B, H, W, C], data = tabulate4 B H W C (\<lambda>b h w c. data t ! ravel4 C H W b c h w)\<rparr>"
  by (simp add: permute_0231_def)

lemma permute_0312_shape4:
  "shape t = [B, H, W, C] \<Longrightarrow>
     permute_0312 t = Inr \<lparr>shape = [B, C, H, W], data = tabulate4 B C H W (\<lambda>b c h w. data t ! ravel4 H W C b h w c)\<rparr>"
  by (simp add: permute_0312_def)

lemma forward_locals_Inr:
  assumes "forward_locals m t = Inr l"
  shows "\<exists>B C H W. shape t = [B, C, H, W] \<and>
    encoder_inputs l = \<lparr>shape = [B, H, W, C],
       data = tabulate4 B H W C (\<lambda>b h w c. data t ! ravel4 C H W b c h w)\<rparr> \<and>
    view_rows (embedding_dim m) (encoder_inputs l) = Inr (flattened_inputs l) \<and>
    weight m \<noteq> [] \<and>
    indexes l = map (\<lambda>row. argmin (map val row)) (all_distances (flattened_inputs l) (weight m)) \<and>
    encodings l = one_hot (num_embeddings m) (indexes l) \<and>
    quantized_bhwc l = \<lparr>shape = [B, H, W, C],
       data = concat (matmul (encodings l) (weight m) (embedding_dim m))\<rparr> \<and>
    first_term l = mse_loss (map detach (data (quantized_bhwc l))) (data (encoder_inputs l)) \<and>
    second_term l = mse_loss (data (quantized_bhwc l)) (map detach (data (encoder_inputs l))) \<and>
    loss l = s_add (first_term l) (s_scale (commitment_loss m) (second_term l)) \<and>
    quantized l = \<lparr>shape = [B, C, H, W],
       data = tabulate4 B C H W (\<lambda>b c h w.
         map2 (+) (data (encoder_inputs l))
           (map detach (map2 (-) (data (quantized_bhwc l)) (data (encoder_inputs l)))) ! ravel4 H W C b h w c)\<rparr>"
proof -
  from assms obtain x where x: "permute_0231 t = Inr x"
    by (auto simp: forward_locals_def split: sum.splits)
  from permute_0231_Inr [OF x] obtain B C H W where
    sh: "shape t = [B, C, H, W]" and
    xd: "x = \<lparr>shape = [B, H, W, C], data = tabulate4 B H W C (\<lambda>b h w c. data t ! ravel4 C H W b c h w)\<rparr>"
    by blast
  from assms x obtain flat where flat: "view_rows (embedding_dim m) x = Inr flat"
    by (auto simp: forward_locals_def split: sum.splits)
  from assms x flat obtain idx where
    idx: "argmin_dim1 (all_distances flat (weight m)) (length (weight m)) = Inr idx"
    by (auto simp: forward_locals_def split: sum.splits)
  have shx: "shape x = [B, H, W, C]" by (simp add: xd)
  from idx have w: "weight m \<noteq> []"
    and idx': "idx = map (\<lambda>row. argmin (map val row)) (all_distances flat (weight m))"
    by (auto simp: argmin_dim1_def split: if_splits)
  define q where "q = concat (matmul (one_hot (num_embeddings m) idx) (weight m) (embedding_dim m))"
  have l: "l = \<lparr>encoder_inputs = x, flattened_inputs = flat, indexes = idx,
       encodings = one_hot (num_embeddings m) idx,
       quantized_bhwc = \<lparr>shape = [B, H, W, C], data = q\<rparr>,
       first_term = mse_loss (map detach q) (data x),
       second_term = mse_loss q (map detach (data x)),
       loss = s_add (mse_loss (map detach q) (data x))
                (s_scale (commitment_loss m) (mse_loss q (map detach (data x)))),
       quantized = \<lparr>shape = [B, C, H, W],
         data = tabulate4 B C H W (\<lambda>b c h w.
           map2 (+) (data x) (map detach (map2 (-) q (data x))) ! ravel4 H W C b h w c)\<rparr>\<rparr>"
    using assms
    unfolding forward_locals_def x flat idx sum.case Let_def
    by (simp add: permute_0312_shape4 shx q_def)
  show ?thesis
    unfolding l using sh flat w idx' by (simp add: q_def xd)
qed


lemma forward_locals_returns:
  assumes "shape t = [B, C, H, W]" and "0 < embedding_dim m" and "weight m \<noteq> []"
    and "(B * C * H * W) mod embedding_dim m = 0"
  shows "\<exists>l. forward_locals m t = Inr l"
proof -
  have "(B * H * W * C) mod embedding_dim m = 0"
    using assms(4) by (simp add: ac_simps)
  then show ?thesis
    using assms(1-3)
    by (simp add: forward_locals_def permute_0231_shape4 permute_0312_shape4 view_rows_def
        argmin_dim1_def Let_def)
qed

lemma forward_locals_raises:
  assumes "shape t = [B, C, H, W]" and "(B * C * H * W) mod embedding_dim m \<noteq> 0"
  shows "forward_locals m t = Inl RuntimeError"
proof -
  have "(B * H * W * C) mod embedding_dim m \<noteq> 0"
    using assms(2) by (simp add: ac_simps)
  then show ?thesis
    using assms(1)
    by (simp add: forward_locals_def permute_0231_shape4 view_rows_def Let_def)
qed

lemma length_concat_matmul: "length (concat (matmul A Bm p)) = length A * p"
proof -
  have "list_all (\<lambda>xs. length xs = p) (matmul A Bm p)"
    by (simp add: matmul_def list_all_iff)
  from length_concat_uniform [OF this] show ?thesis
    by (simp add: matmul_def)
qed

text \<open>The sizes of the intermediate tensors of a pass that returns.\<close>

lemma forward_locals_lengths:
  assumes l: "forward_locals m t = Inr l" and sh: "shape t = [B, C, H, W]"
  shows "length (data (encoder_inputs l)) = B * H * W * C"
    and "length (flattened_inputs l) = (B * H * W * C) div embedding_dim m"
    and "length (indexes l) = (B * H * W * C) div embedding_dim m"
    and "length (data (quantized_bhwc l)) = B * H * W * C"
    and "0 < embedding_dim m"
proof -
  from forward_locals_Inr [OF l] sh have
    x: "encoder_inputs l = \<lparr>shape = [B, H, W, C],
         data = tabulate4 B H W C (\<lambda>b h w c. data t ! ravel4 C H W b c h w)\<rparr>" and
    v: "view_rows (embedding_dim m) (encoder_inputs l) = Inr (flattened_inputs l)" and
    i: "indexes l = map (\<lambda>row. argmin (map val row)) (all_distances (flattened_inputs l) (weight m))" and
    e: "encodings l = one_hot (num_embeddings m) (indexes l)" and
    q: "quantized_bhwc l = \<lparr>shape = [B, H, W, C],
         data = concat (matmul (encodings l) (weight m) (embedding_dim m))\<rparr>"
    by auto
  show lx: "length (data (encoder_inputs l)) = B * H * W * C"
    by (simp add: x)
  from view_rows_Inr [OF v] lx have D: "0 < embedding_dim m"
    and md: "(B * H * W * C) mod embedding_dim m = 0"
    and lf: "length (flattened_inputs l) = (B * H * W * C) div embedding_dim m"
    by simp_all
  show "0 < embedding_dim m" by (rule D)
  show "length (flattened_inputs l) = (B * H * W * C) div embedding_dim m" by (rule lf)
  show li: "length (indexes l) = (B * H * W * C) div embedding_dim m"
    by (simp add: i all_distances_def lf)
  have "length (data (quantized_bhwc l)) = (B * H * W * C) div embedding_dim m * embedding_dim m"
    by (simp add: q length_concat_matmul e one_hot_def li)
  also have "\<dots> = B * H * W * C"
    using md by (metis add.right_neutral div_mult_mod_eq)
  finally show "length (data (quantized_bhwc l)) = B * H * W * C" .
qed

lemma forward_locals_quantized_shape:
  assumes l: "forward_locals m t = Inr l" and sh: "shape t = [B, C, H, W]"
  shows "shape (quantized l) = [B, C, H, W]" and "length (data (quantized l)) = B * C * H * W"
  using forward_locals_Inr [OF l] sh by auto


lemma entry4_shape4:
  "shape t = [B, C, H, W] \<Longrightarrow> entry4 t b c h w = data t ! ravel4 C H W b c h w"
  by (simp add: entry4_def)

lemma row_index_less:
  assumes "b < B" "h < H" "w < (W::nat)"
  shows "(b * H + h) * W + w < B * H * W"
proof -
  have "b * H + h < Suc b * H" using assms by simp
  also have "\<dots> \<le> B * H" using assms by (intro mult_le_mono1) simp
  finally have "Suc (b * H + h) \<le> B * H" by simp
  then have "Suc (b * H + h) * W \<le> B * H * W" by (rule mult_le_mono1)
  moreover have "(b * H + h) * W + w < Suc (b * H + h) * W" using assms by simp
  ultimately show ?thesis by simp
qed

text \<open>When the channel count is the embedding dimension, row \<open>(b * H + h) * W + w\<close> of the
  flattened inputs is the channel vector at \<open>(b, h, w)\<close>.\<close>

lemma flattened_inputs_row:
  assumes l: "forward_locals m t = Inr l" and sh: "shape t = [B, embedding_dim m, H, W]"
    and b: "b < B" "h < H" "w < W"
  shows "length (flattened_inputs l) = B * H * W"
    and "flattened_inputs l ! ((b * H + h) * W + w) = channels t b h w"
proof -
  let ?D = "embedding_dim m"
  let ?n = "(b * H + h) * W + w"
  from forward_locals_Inr [OF l] sh have
    x: "encoder_inputs l = \<lparr>shape = [B, H, W, ?D],
         data = tabulate4 B H W ?D (\<lambda>b h w c. data t ! ravel4 ?D H W b c h w)\<rparr>" and
    v: "view_rows ?D (encoder_inputs l) = Inr (flattened_inputs l)"
    by auto
  from forward_locals_lengths [OF l sh] have D: "0 < ?D"
    and lf: "length (flattened_inputs l) = (B * H * W * ?D) div ?D"
    by simp_all
  from lf D show len: "length (flattened_inputs l) = B * H * W" by simp
  have n: "?n < length (flattened_inputs l)"
    unfolding len using b by (rule row_index_less)
  have "flattened_inputs l ! ?n = map (\<lambda>c. data (encoder_inputs l) ! (?n * ?D + c)) [0..<?D]"
    by (rule view_rows_nth [OF v n])
  also have "\<dots> = map (\<lambda>c. data t ! ravel4 ?D H W b c h w) [0..<?D]"
  proof (rule map_cong [OF refl])
    fix c assume "c \<in> set [0..<?D]"
    then have c: "c < ?D" by simp
    have "?n * ?D + c = ravel4 H W ?D b h w c" by (simp add: ravel4_def)
    then show "data (encoder_inputs l) ! (?n * ?D + c) = data t ! ravel4 ?D H W b c h w"
      using b c by (simp add: x nth_tabulate4)
  qed
  also have "\<dots> = channels t b h w"
    by (simp add: channels_def entry4_def sh)
  finally show "flattened_inputs l ! ?n = channels t b h w" .
qed

lemma length_channels: "shape t = [B, C, H, W] \<Longrightarrow> length (channels t b h w) = C"
  by (simp add: channels_def)

text \<open>The index chosen for one row of the flattened inputs.\<close>

lemma indexes_nth:
  assumes l: "forward_locals m t = Inr l" and n: "n < length (flattened_inputs l)"
  shows "indexes l ! n =
     argmin (map (\<lambda>e. val (sum_sq (flattened_inputs l ! n) + sum_sq e
                          - const 2 * dot (flattened_inputs l ! n) e)) (weight m))"
  using forward_locals_Inr [OF l] n by (auto simp: all_distances_def comp_def)

lemma indexes_less:
  assumes l: "forward_locals m t = Inr l" and n: "n < length (flattened_inputs l)"
  shows "indexes l ! n < length (weight m)"
proof -
  from forward_locals_Inr [OF l] have "weight m \<noteq> []" by auto
  then have "argmin (map (\<lambda>e. val (sum_sq (flattened_inputs l ! n) + sum_sq e
                          - const 2 * dot (flattened_inputs l ! n) e)) (weight m)) < length (weight m)"
    using argmin_less [of "map (\<lambda>e. val (sum_sq (flattened_inputs l ! n) + sum_sq e
                          - const 2 * dot (flattened_inputs l ! n) e)) (weight m)"]
    by simp
  then show ?thesis by (simp add: indexes_nth [OF l n])
qed


lemma wf_vq_returns:
  assumes "wf_vq m" and "shape t = [B, embedding_dim m, H, W]"
  shows "\<exists>l. forward_locals m t = Inr l"
proof (rule forward_locals_returns [OF assms(2)])
  show "0 < embedding_dim m" using assms(1) by (simp add: wf_vq_def)
  show "weight m \<noteq> []" using assms(1) by (auto simp: wf_vq_def)
  show "(B * embedding_dim m * H * W) mod embedding_dim m = 0" by simp
qed

lemma indexes_row_sq_euclid:
  assumes wf: "wf_vq m" and l: "forward_locals m t = Inr l"
    and sh: "shape t = [B, embedding_dim m, H, W]" and b: "b < B" "h < H" "w < W"
  shows "indexes l ! ((b * H + h) * W + w) =
     argmin (map (\<lambda>e. sq_euclid (map val (channels t b h w)) (map val e)) (weight m))"
proof -
  let ?n = "(b * H + h) * W + w"
  from flattened_inputs_row [OF l sh b] have
    len: "length (flattened_inputs l) = B * H * W" and
    row: "flattened_inputs l ! ?n = channels t b h w"
    by simp_all
  have n: "?n < length (flattened_inputs l)"
    unfolding len using b by (rule row_index_less)
  have "map (\<lambda>e. val (sum_sq (channels t b h w) + sum_sq e - const 2 * dot (channels t b h w) e)) (weight m)
      = map (\<lambda>e. sq_euclid (map val (channels t b h w)) (map val e)) (weight m)"
  proof (rule map_cong [OF refl])
    fix e assume "e \<in> set (weight m)"
    with wf have "length e = embedding_dim m"
      by (simp add: wf_vq_def list_all_iff)
    then have "length (channels t b h w) = length e"
      by (simp add: length_channels [OF sh])
    then show "val (sum_sq (channels t b h w) + sum_sq e - const 2 * dot (channels t b h w) e)
        = sq_euclid (map val (channels t b h w)) (map val e)"
      by (rule val_all_distances_entry)
  qed
  then show ?thesis
    by (simp only: indexes_nth [OF l n] row)
qed

text \<open>
  In exact arithmetic the forward pass of the model selects, for the query at \<open>(b, h, w)\<close>,
  the first index whose codebook row is nearest in squared Euclidean distance.
\<close>

lemma selected_index_minimizes_distance:
  assumes wf: "wf_vq m" and sh: "shape t = [B, embedding_dim m, H, W]"
    and b: "b < B" "h < H" "w < W"
  shows "\<exists>l. forward_locals m t = Inr l \<and> length (indexes l) = B * H * W \<and>
    (let k = indexes l ! ((b * H + h) * W + w);
         q = map val (channels t b h w)
     in k < num_embeddings m \<and>
        (\<forall>j < num_embeddings m.
           sq_euclid q (map val (weight m ! k)) \<le> sq_euclid q (map val (weight m ! j))) \<and>
        (\<forall>j < k.
           sq_euclid q (map val (weight m ! k)) < sq_euclid q (map val (weight m ! j))))"
proof -
  from wf_vq_returns [OF wf sh] obtain l where l: "forward_locals m t = Inr l" ..
  let ?q = "map val (channels t b h w)"
  let ?ds = "map (\<lambda>e. sq_euclid ?q (map val e)) (weight m)"
  let ?k = "indexes l ! ((b * H + h) * W + w)"
  have K: "length (weight m) = num_embeddings m" and K0: "weight m \<noteq> []"
    using wf by (auto simp: wf_vq_def)
  have k: "?k = argmin ?ds"
    by (rule indexes_row_sq_euclid [OF wf l sh b])
  have kK: "?k < num_embeddings m"
    using argmin_less [of ?ds] K0 K by (simp add: k)
  have len: "length (indexes l) = B * H * W"
    using forward_locals_lengths(3,5) [OF l sh] by simp
  have le: "sq_euclid ?q (map val (weight m ! ?k)) \<le> sq_euclid ?q (map val (weight m ! j))"
    if "j < num_embeddings m" for j
    using argmin_le [of j ?ds] that kK K by (simp add: k [symmetric])
  have first: "sq_euclid ?q (map val (weight m ! ?k)) < sq_euclid ?q (map val (weight m ! j))"
    if "j < ?k" for j
  proof -
    from that kK have "j < num_embeddings m" by simp
    with argmin_first [of j ?ds] that kK K show ?thesis by (simp add: k [symmetric])
  qed
  show ?thesis
    using l len kK le first by (auto simp: Let_def)
qed


subsection \<open>The quantized tensor\<close>

lemma quantized_bhwc_rows:
  assumes wf: "wf_vq m" and l: "forward_locals m t = Inr l"
  shows "matmul (encodings l) (weight m) (embedding_dim m) = map (\<lambda>i. weight m ! i) (indexes l)"
proof -
  from forward_locals_Inr [OF l] have
    e: "encodings l = one_hot (num_embeddings m) (indexes l)" and
    i: "length (indexes l) = length (flattened_inputs l)"
    by (auto simp: all_distances_def)
  have K: "num_embeddings m = length (weight m)"
    and rows: "list_all (\<lambda>row. length row = embedding_dim m) (weight m)"
    using wf by (simp_all add: wf_vq_def)
  have "list_all (\<lambda>i. i < length (weight m)) (indexes l)"
    unfolding list_all_length using indexes_less [OF l] i by simp
  from matmul_one_hot [OF this rows] show ?thesis
    by (simp add: e K)
qed

lemma quantized_bhwc_nth:
  assumes wf: "wf_vq m" and l: "forward_locals m t = Inr l"
    and n: "n < length (indexes l)" and c: "c < embedding_dim m"
  shows "data (quantized_bhwc l) ! (n * embedding_dim m + c) = weight m ! (indexes l ! n) ! c"
proof -
  from forward_locals_Inr [OF l] have
    q: "data (quantized_bhwc l) = concat (matmul (encodings l) (weight m) (embedding_dim m))" and
    i: "length (indexes l) = length (flattened_inputs l)"
    by (auto simp: all_distances_def)
  have rows: "list_all (\<lambda>row. length row = embedding_dim m) (weight m)"
    using wf by (simp add: wf_vq_def)
  have "list_all (\<lambda>xs. length xs = embedding_dim m) (map (\<lambda>i. weight m ! i) (indexes l))"
    unfolding list_all_length
  proof (intro allI impI)
    fix k assume "k < length (map (\<lambda>i. weight m ! i) (indexes l))"
    then have k: "k < length (flattened_inputs l)" by (simp add: i)
    from indexes_less [OF l k] rows show "length (map (\<lambda>i. weight m ! i) (indexes l) ! k) = embedding_dim m"
      using k i by (simp add: list_all_length)
  qed
  from nth_concat_uniform [OF this, of n c] n c show ?thesis
    by (simp add: q quantized_bhwc_rows [OF wf l])
qed

lemma straight_through_nth:
  assumes "length qs = length xs" and "k < length xs"
  shows "map2 (+) xs (map detach (map2 (-) qs xs)) ! k = Dual (val (qs ! k)) (der (xs ! k))"
  using assms by (simp add: plus_dual_def)

lemma quantized_entry:
  assumes l: "forward_locals m t = Inr l" and sh: "shape t = [B, C, H, W]"
    and b: "b < B" "c < C" "h < H" "w < W"
  shows "entry4 (quantized l) b c h w =
     Dual (val (entry4 (quantized_bhwc l) b h w c)) (der (entry4 t b c h w))"
proof -
  let ?X = "data (encoder_inputs l)" and ?Q = "data (quantized_bhwc l)"
  from forward_locals_Inr [OF l] sh have
    x: "encoder_inputs l = \<lparr>shape = [B, H, W, C],
         data = tabulate4 B H W C (\<lambda>b h w c. data t ! ravel4 C H W b c h w)\<rparr>" and
    qs: "shape (quantized_bhwc l) = [B, H, W, C]" and
    out: "quantized l = \<lparr>shape = [B, C, H, W],
       data = tabulate4 B C H W (\<lambda>b c h w.
         map2 (+) ?X (map detach (map2 (-) ?Q ?X)) ! ravel4 H W C b h w c)\<rparr>"
    by auto
  from forward_locals_lengths [OF l sh] have
    lx: "length ?X = B * H * W * C" and lq: "length ?Q = B * H * W * C"
    by simp_all
  have r: "ravel4 H W C b h w c < length ?X"
    unfolding lx using b by (intro ravel4_less)
  have "entry4 (quantized l) b c h w
      = map2 (+) ?X (map detach (map2 (-) ?Q ?X)) ! ravel4 H W C b h w c"
    using b by (simp add: entry4_def out nth_tabulate4)
  also have "\<dots> = Dual (val (?Q ! ravel4 H W C b h w c)) (der (?X ! ravel4 H W C b h w c))"
    by (rule straight_through_nth) (use lx lq r in simp_all)
  also have "?X ! ravel4 H W C b h w c = entry4 t b c h w"
    using b by (simp add: x nth_tabulate4 entry4_def sh)
  also have "?Q ! ravel4 H W C b h w c = entry4 (quantized_bhwc l) b h w c"
    by (simp add: entry4_def qs)
  finally show ?thesis .
qed

lemma forward_eq:
  "forward_locals m t = Inr l \<Longrightarrow> forward m t = Inr (quantized l, loss l)"
  by (simp add: forward_def)

text \<open>
  In exact arithmetic the tensor the model returns holds, at every position, the values of
  the selected codebook row.
\<close>

lemma quantized_is_selected_codebook_row:
  assumes wf: "wf_vq m" and sh: "shape t = [B, embedding_dim m, H, W]"
    and b: "b < B" "c < embedding_dim m" "h < H" "w < W"
  shows "\<exists>l. forward_locals m t = Inr l \<and> forward m t = Inr (quantized l, loss l) \<and>
    (let n = (b * H + h) * W + w in
       matmul (encodings l) (weight m) (embedding_dim m) ! n = weight m ! (indexes l ! n) \<and>
       entry4 (quantized_bhwc l) b h w c = weight m ! (indexes l ! n) ! c \<and>
       val (entry4 (quantized l) b c h w) = val (entry4 (quantized_bhwc l) b h w c) \<and>
       val (entry4 (quantized l) b c h w) = val (weight m ! (indexes l ! n) ! c))"
proof -
  from wf_vq_returns [OF wf sh] obtain l where l: "forward_locals m t = Inr l" ..
  let ?n = "(b * H + h) * W + w"
  have len: "length (indexes l) = B * H * W"
    using forward_locals_lengths(3,5) [OF l sh] by simp
  have n: "?n < length (indexes l)"
    unfolding len using b(1,3,4) by (rule row_index_less)
  have qs: "shape (quantized_bhwc l) = [B, H, W, embedding_dim m]"
    using forward_locals_Inr [OF l] sh by auto
  have 1: "matmul (encodings l) (weight m) (embedding_dim m) ! ?n = weight m ! (indexes l ! ?n)"
    using n by (simp add: quantized_bhwc_rows [OF wf l])
  have 2: "entry4 (quantized_bhwc l) b h w c = weight m ! (indexes l ! ?n) ! c"
    using quantized_bhwc_nth [OF wf l n b(2)] by (simp add: entry4_def qs ravel4_def)
  have 3: "val (entry4 (quantized l) b c h w) = val (entry4 (quantized_bhwc l) b h w c)"
    by (simp add: quantized_entry [OF l sh b])
  show ?thesis
    using l forward_eq [OF l] 1 2 3 by (auto simp: Let_def)
qed


subsection \<open>Shapes and errors\<close>

text \<open>
  Claim C7.  For an input of shape (B, D, H, W) whose channel dimension is the embedding
  dimension, the forward pass returns, and the tensor it returns as \<open>quantized\<close> has the
  shape (B, D, H, W) of the input, with one entry for every index.
\<close>

theorem quantized_has_input_shape:
  assumes wf: "wf_vq m" and sh: "shape t = [B, embedding_dim m, H, W]"
  shows "\<exists>q s. forward m t = Inr (q, s) \<and> shape q = [B, embedding_dim m, H, W] \<and>
           shape q = shape t \<and> wf_tensor q"
proof -
  from wf_vq_returns [OF wf sh] obtain l where l: "forward_locals m t = Inr l" ..
  from forward_locals_quantized_shape [OF l sh] have
    "shape (quantized l) = shape t" "wf_tensor (quantized l)"
    by (simp_all add: sh wf_tensor_def)
  with forward_eq [OF l] sh show ?thesis by auto
qed

theorem quantized_has_input_shape_witness:
  "wf_vq example_vq \<and> shape example_in = [1, embedding_dim example_vq, 1, 2] \<and>
   (\<exists>q s. forward example_vq example_in = Inr (q, s) \<and>
      shape q = [1, embedding_dim example_vq, 1, 2] \<and> shape q = shape example_in \<and> wf_tensor q)"
proof -
  have 1: "wf_vq example_vq" by code_simp
  have 2: "shape example_in = [1, embedding_dim example_vq, 1, 2]" by code_simp
  from quantized_has_input_shape [OF 1 2] 1 2 show ?thesis by blast
qed

text \<open>
  Claim C8.  For an input of shape (B, D, H, W) with B * H * W = 0 and D the embedding
  dimension, the forward pass raises nothing: it returns the tensor of the input's shape
  with no entry, and the loss NaN, the mean over no element.
\<close>

theorem forward_empty_input:
  assumes wf: "wf_vq m" and sh: "shape t = [B, embedding_dim m, H, W]" and N: "B * H * W = 0"
  shows "forward m t = Inr (\<lparr>shape = [B, embedding_dim m, H, W], data = []\<rparr>, NaN)"
proof -
  from wf_vq_returns [OF wf sh] obtain l where l: "forward_locals m t = Inr l" ..
  from N have z: "B * H * W * embedding_dim m = 0" "B * embedding_dim m * H * W = 0"
    by auto
  from forward_locals_lengths [OF l sh] z have q: "data (quantized_bhwc l) = []"
    by simp
  from forward_locals_quantized_shape [OF l sh] z have
    "shape (quantized l) = [B, embedding_dim m, H, W]" "data (quantized l) = []"
    by simp_all
  then have out: "quantized l = \<lparr>shape = [B, embedding_dim m, H, W], data = []\<rparr>"
    by simp
  from forward_locals_Inr [OF l] have
    "first_term l = mse_loss (map detach (data (quantized_bhwc l))) (data (encoder_inputs l))"
    "loss l = s_add (first_term l) (s_scale (commitment_loss m) (second_term l))"
    by auto
  then have "loss l = NaN"
    by (simp add: q mse_loss_def)
  with forward_eq [OF l] out show ?thesis by simp
qed

theorem forward_empty_input_witness:
  "wf_vq example_vq \<and> shape empty_in = [0, embedding_dim example_vq, 1, 1] \<and>
   (0::nat) * 1 * 1 = 0 \<and>
   forward example_vq empty_in
     = Inr (\<lparr>shape = [0, embedding_dim example_vq, 1, 1], data = []\<rparr>, NaN)"
proof -
  have 1: "wf_vq example_vq" by code_simp
  have 2: "shape empty_in = [0, embedding_dim example_vq, 1, 1]" by code_simp
  have 3: "(0::nat) * 1 * 1 = 0" by simp
  from forward_empty_input [OF 1 2 3] 1 2 3 show ?thesis by blast
qed

text \<open>
  Claim C6, as the code has it.  The forward pass does not compare the channel dimension of
  its input with the embedding dimension D: the one check on the way is the one of
  \<open>view(-1, D)\<close>.  For a four-dimensional input of shape (B, C, H, W) the pass raises, with
  the view's \<open>RuntimeError\<close>, exactly when D does not divide the element count
  B * C * H * W, and returns exactly when it does, whatever C is.
\<close>

theorem forward_raises_iff_not_divisible:
  assumes wf: "wf_vq m" and sh: "shape t = [B, C, H, W]"
  shows "(forward m t = Inl RuntimeError \<longleftrightarrow> (B * C * H * W) mod embedding_dim m \<noteq> 0) \<and>
         ((\<exists>r. forward m t = Inr r) \<longleftrightarrow> (B * C * H * W) mod embedding_dim m = 0)"
proof (cases "(B * C * H * W) mod embedding_dim m = 0")
  case True
  have "0 < embedding_dim m" "weight m \<noteq> []"
    using wf by (auto simp: wf_vq_def)
  from forward_locals_returns [OF sh this True] obtain l where "forward_locals m t = Inr l" ..
  from forward_eq [OF this] True show ?thesis by simp
next
  case False
  from forward_locals_raises [OF sh False] have "forward m t = Inl RuntimeError"
    by (simp add: forward_def)
  with False show ?thesis by simp
qed

theorem forward_raises_iff_not_divisible_witness:
  "wf_vq example_vq \<and> shape one_channel_in = [1, 1, 1, 2] \<and>
   (forward example_vq one_channel_in = Inl RuntimeError
      \<longleftrightarrow> (1 * 1 * 1 * 2) mod embedding_dim example_vq \<noteq> 0) \<and>
   ((\<exists>r. forward example_vq one_channel_in = Inr r)
      \<longleftrightarrow> (1 * 1 * 1 * 2) mod embedding_dim example_vq = 0)"
proof -
  have 1: "wf_vq example_vq" by code_simp
  have 2: "shape one_channel_in = [1, 1, 1, 2]" by code_simp
  from forward_raises_iff_not_divisible [OF 1 2] 1 2 show ?thesis by blast
qed

text \<open>
  Claim C6, as stated, fails: an input with one channel, where the embedding dimension is
  2, is quantized without an error.
\<close>

theorem channel_mismatch_accepted:
  "shape one_channel_in ! 1 \<noteq> embedding_dim example_vq \<and>
   wf_vq example_vq \<and> wf_tensor one_channel_in \<and>
   forward example_vq one_channel_in
     = Inr (\<lparr>shape = [1, 1, 1, 2], data = [Dual 0 0, Dual 0 0]\<rparr>, Num (Dual (25 / 8) 0))"
  by code_simp

subsection \<open>The straight-through derivative\<close>

text \<open>
  Claim C4.  Whenever the forward pass returns on a well-formed input, the returned
  \<open>quantized\<close> tensor has the input's shape and, entry by entry, the derivative of the
  input: along every direction of perturbation of the encoder output and of the codebook,
  the derivative of each returned entry is the derivative of the input entry at the same
  index.  The Jacobian of \<open>quantized\<close> with respect to the encoder input is the identity,
  and with respect to the codebook it is zero, whichever rows were selected.
\<close>

theorem straight_through_gradient_is_identity:
  assumes f: "forward m t = Inr (q, s)" and wt: "wf_tensor t"
  shows "shape q = shape t \<and> map der (data q) = map der (data t)"
proof -
  from f obtain l where l: "forward_locals m t = Inr l" and q: "q = quantized l"
    by (auto simp: forward_def split: sum.splits)
  from forward_locals_Inr [OF l] obtain B C H W where sh: "shape t = [B, C, H, W]"
    by auto
  from forward_locals_quantized_shape [OF l sh] have
    qs: "shape (quantized l) = [B, C, H, W]" and ql: "length (data (quantized l)) = B * C * H * W"
    by simp_all
  from wt sh have tl: "length (data t) = B * C * H * W"
    by (simp add: wf_tensor_def)
  have "map der (data (quantized l)) = map der (data t)"
  proof (rule nth_equalityI)
    show "length (map der (data (quantized l))) = length (map der (data t))"
      by (simp add: ql tl)
  next
    fix k assume "k < length (map der (data (quantized l)))"
    then have k: "k < B * C * H * W" by (simp add: ql)
    from unravel4 [OF k] obtain b c h w where
      b: "b < B" "c < C" "h < H" "w < W" and kr: "k = ravel4 C H W b c h w"
      by blast
    have "der (data (quantized l) ! k) = der (entry4 (quantized l) b c h w)"
      by (simp add: entry4_def qs kr)
    also have "\<dots> = der (entry4 t b c h w)"
      by (simp add: quantized_entry [OF l sh b])
    also have "\<dots> = der (data t ! k)"
      by (simp add: entry4_def sh kr)
    finally show "map der (data (quantized l)) ! k = map der (data t) ! k"
      using k by (simp add: ql tl)
  qed
  then show ?thesis by (simp add: q qs sh)
qed

theorem straight_through_gradient_is_identity_witness:
  "forward example_vq example_in = Inr (quantized example_locals, loss example_locals) \<and>
   wf_tensor example_in \<and>
   shape (quantized example_locals) = shape example_in \<and>
   map der (data (quantized example_locals)) = map der (data example_in) \<and>
   map der (data example_in) = [1, 0, 0, 0]"
proof -
  have 1: "forward example_vq example_in = Inr (quantized example_locals, loss example_locals)"
    by code_simp
  have 2: "wf_tensor example_in" by code_simp
  have 3: "map der (data example_in) = [1, 0, 0, 0]" by code_simp
  from straight_through_gradient_is_identity [OF 1 2] 1 2 3 show ?thesis by blast
qed


subsection \<open>The loss\<close>

lemma val_sum_sq_diff:
  "val (sum_list (map2 (\<lambda>a b. (a - b) ^ 2) xs ys)) = sq_euclid (map val xs) (map val ys)"
proof (induction xs arbitrary: ys)
  case Nil
  then show ?case by (simp add: sq_euclid_def)
next
  case (Cons x xs)
  then show ?case by (cases ys) (simp_all add: sq_euclid_def)
qed

lemma der_sum_sq_diff:
  "der (sum_list (map2 (\<lambda>a b. (a - b) ^ 2) xs ys))
     = sum_list (map2 (\<lambda>a b. 2 * (val a - val b) * (der a - der b)) xs ys)"
proof (induction xs arbitrary: ys)
  case Nil
  then show ?case by simp
next
  case (Cons x xs)
  then show ?case by (cases ys) simp_all
qed

lemma sum_list_map2_zero:
  "(\<And>a b. (a, b) \<in> set (zip xs ys) \<Longrightarrow> f a b = (0::real)) \<Longrightarrow> sum_list (map2 f xs ys) = 0"
  by (induction xs arbitrary: ys) (auto simp: zip_Cons1 split: list.splits)

lemma mse_real_nonneg: "0 \<le> mse_real u v"
  by (simp add: mse_real_def sq_euclid_nonneg)

lemma mse_loss_Num:
  assumes "inp \<noteq> []"
  shows "\<exists>a. mse_loss inp target = Num a \<and> val a = mse_real (map val inp) (map val target) \<and>
           der a = sum_list (map2 (\<lambda>a b. 2 * (val a - val b) * (der a - der b)) inp target)
                     / real (length inp)"
  using assms by (simp add: mse_loss_def mse_real_def val_sum_sq_diff der_sum_sq_diff)

lemma val_comp_detach [simp]: "val \<circ> detach = val"
  by (rule ext) simp

lemma der_comp_detach [simp]: "der \<circ> detach = (\<lambda>a. 0)"
  by (rule ext) simp

text \<open>
  Claim C3, as the code has it.  Whenever the forward pass returns on a well-formed input,
  the loss it returns is \<open>first_term + beta * second_term\<close>, where \<open>first_term\<close> is the mean
  squared error between the detached quantized tensor and the channel-last input and
  \<open>second_term\<close> the one between the quantized tensor and the detached channel-last input.
  When the input has an element, both terms are numbers, both have the value of the mean
  squared difference of the two tensors, and both are at least 0.  When the input has no
  element, both terms and the loss are NaN.
\<close>

theorem loss_is_sum_of_mse_terms:
  assumes l: "forward_locals m t = Inr l" and wt: "wf_tensor t"
  shows "forward m t = Inr (quantized l, loss l) \<and>
    loss l = s_add (first_term l) (s_scale (commitment_loss m) (second_term l)) \<and>
    (if data t = [] then first_term l = NaN \<and> second_term l = NaN \<and> loss l = NaN
     else \<exists>a b. first_term l = Num a \<and> second_term l = Num b \<and>
            loss l = Num (a + const (commitment_loss m) * b) \<and>
            val a = mse_real (map val (data (quantized_bhwc l))) (map val (data (encoder_inputs l))) \<and>
            val b = mse_real (map val (data (quantized_bhwc l))) (map val (data (encoder_inputs l))) \<and>
            s_nonneg (first_term l) \<and> s_nonneg (second_term l))"
proof -
  let ?Q = "data (quantized_bhwc l)" and ?X = "data (encoder_inputs l)"
  from forward_locals_Inr [OF l] obtain B C H W where sh: "shape t = [B, C, H, W]"
    and t1: "first_term l = mse_loss (map detach ?Q) ?X"
    and t2: "second_term l = mse_loss ?Q (map detach ?X)"
    and ls: "loss l = s_add (first_term l) (s_scale (commitment_loss m) (second_term l))"
    by auto
  from forward_locals_lengths [OF l sh] have lq: "length ?Q = B * H * W * C"
    by simp
  from wt sh have lt: "length (data t) = B * C * H * W"
    by (simp add: wf_tensor_def)
  have len: "length ?Q = length (data t)"
    by (simp add: lq lt ac_simps)
  show ?thesis
  proof (cases "data t = []")
    case True
    with len have "?Q = []" by simp
    then have "first_term l = NaN" "second_term l = NaN"
      by (simp_all add: t1 t2 mse_loss_def)
    with True ls forward_eq [OF l] show ?thesis by simp
  next
    case False
    with len have Q: "?Q \<noteq> []" by auto
    then have Q': "map detach ?Q \<noteq> []" by simp
    from mse_loss_Num [OF Q', of ?X] obtain a where
      a: "first_term l = Num a" "val a = mse_real (map val ?Q) (map val ?X)"
      by (auto simp: t1)
    from mse_loss_Num [OF Q, of "map detach ?X"] obtain b where
      b: "second_term l = Num b" "val b = mse_real (map val ?Q) (map val ?X)"
      by (auto simp: t2)
    have "loss l = Num (a + const (commitment_loss m) * b)"
      by (simp add: ls a b)
    moreover have "s_nonneg (first_term l)" "s_nonneg (second_term l)"
      by (simp_all add: a b mse_real_nonneg)
    ultimately show ?thesis
      using False ls forward_eq [OF l] a b by auto
  qed
qed

theorem loss_is_sum_of_mse_terms_witness:
  "forward_locals example_vq example_in = Inr example_locals \<and> wf_tensor example_in \<and>
   data example_in \<noteq> [] \<and>
   forward example_vq example_in = Inr (quantized example_locals, loss example_locals) \<and>
   loss example_locals
     = s_add (first_term example_locals)
         (s_scale (commitment_loss example_vq) (second_term example_locals)) \<and>
   (\<exists>a b. first_term example_locals = Num a \<and> second_term example_locals = Num b \<and>
      loss example_locals = Num (a + const (commitment_loss example_vq) * b) \<and>
      val a = mse_real (map val (data (quantized_bhwc example_locals)))
                (map val (data (encoder_inputs example_locals))) \<and>
      val b = mse_real (map val (data (quantized_bhwc example_locals)))
                (map val (data (encoder_inputs example_locals))) \<and>
      s_nonneg (first_term example_locals) \<and> s_nonneg (second_term example_locals))"
proof -
  have 1: "forward_locals example_vq example_in = Inr example_locals" by code_simp
  have 2: "wf_tensor example_in" by code_simp
  have 3: "data example_in \<noteq> []" by code_simp
  from loss_is_sum_of_mse_terms [OF 1 2] have
    "forward example_vq example_in = Inr (quantized example_locals, loss example_locals) \<and>
     loss example_locals
       = s_add (first_term example_locals)
           (s_scale (commitment_loss example_vq) (second_term example_locals)) \<and>
     (\<exists>a b. first_term example_locals = Num a \<and> second_term example_locals = Num b \<and>
        loss example_locals = Num (a + const (commitment_loss example_vq) * b) \<and>
        val a = mse_real (map val (data (quantized_bhwc example_locals)))
                  (map val (data (encoder_inputs example_locals))) \<and>
        val b = mse_real (map val (data (quantized_bhwc example_locals)))
                  (map val (data (encoder_inputs example_locals))) \<and>
        s_nonneg (first_term example_locals) \<and> s_nonneg (second_term example_locals))"
    unfolding if_not_P [OF 3] .
  with 1 2 3 show ?thesis by blast
qed

text \<open>
  Claim C3, as stated, fails on an input with no element: the pass returns, and its two
  loss terms are NaN, which is not at least 0.
\<close>

theorem loss_terms_nan_on_empty_input:
  "wf_vq example_vq \<and> wf_tensor empty_in \<and>
   forward_locals example_vq empty_in = Inr empty_locals \<and>
   first_term empty_locals = NaN \<and> second_term empty_locals = NaN \<and>
   \<not> s_nonneg (first_term empty_locals) \<and> \<not> s_nonneg (second_term empty_locals)"
  by code_simp


subsection \<open>Where the two loss terms send their gradient\<close>

lemma list_all_encoder_inputs:
  assumes l: "forward_locals m t = Inr l" and wt: "wf_tensor t" and P: "list_all P (data t)"
  shows "list_all P (data (encoder_inputs l))"
proof -
  from forward_locals_Inr [OF l] obtain B C H W where sh: "shape t = [B, C, H, W]" and
    x: "data (encoder_inputs l) = tabulate4 B H W C (\<lambda>b h w c. data t ! ravel4 C H W b c h w)"
    by auto
  from wt sh have lt: "length (data t) = B * C * H * W"
    by (simp add: wf_tensor_def)
  show ?thesis
    unfolding list_all_length
  proof (intro allI impI)
    fix k assume "k < length (data (encoder_inputs l))"
    then have "k < B * H * W * C" by (simp add: x)
    from unravel4 [OF this] obtain b h w c where
      b: "b < B" "h < H" "w < W" "c < C" and k: "k = ravel4 H W C b h w c"
      by blast
    have "ravel4 C H W b c h w < length (data t)"
      unfolding lt using b by (intro ravel4_less)
    with P have "P (data t ! ravel4 C H W b c h w)"
      by (simp add: list_all_length)
    then show "P (data (encoder_inputs l) ! k)"
      using b by (simp add: x k nth_tabulate4)
  qed
qed

lemma list_all_quantized_bhwc:
  assumes wf: "wf_vq m" and l: "forward_locals m t = Inr l"
    and P: "list_all (list_all P) (weight m)"
  shows "list_all P (data (quantized_bhwc l))"
proof -
  from forward_locals_Inr [OF l] have
    q: "data (quantized_bhwc l) = concat (matmul (encodings l) (weight m) (embedding_dim m))" and
    i: "length (indexes l) = length (flattened_inputs l)"
    by (auto simp: all_distances_def)
  have "list_all P (weight m ! (indexes l ! k))" if "k < length (indexes l)" for k
  proof -
    from that i have "k < length (flattened_inputs l)" by simp
    from indexes_less [OF l this] P show ?thesis
      by (simp add: list_all_length)
  qed
  then have "list_all (list_all P) (map (\<lambda>i. weight m ! i) (indexes l))"
    by (simp add: list_all_length)
  then show ?thesis
    by (simp add: q quantized_bhwc_rows [OF wf l] list_all_iff)
qed

lemma first_term_der:
  assumes "mse_loss (map detach qs) xs = Num a"
  shows "der a = sum_list (map2 (\<lambda>q x. 2 * (val x - val q) * der x) qs xs) / real (length qs)"
proof -
  from assms have ne: "map detach qs \<noteq> []"
    by (auto simp: mse_loss_def split: if_splits)
  from mse_loss_Num [OF ne, of xs] assms have
    "der a = sum_list (map2 (\<lambda>a b. 2 * (val a - val b) * (der a - der b)) (map detach qs) xs)
               / real (length qs)"
    by simp
  also have "map2 (\<lambda>a b. 2 * (val a - val b) * (der a - der b)) (map detach qs) xs
      = map2 (\<lambda>q x. 2 * (val x - val q) * der x) qs xs"
    by (simp add: zip_map1 case_prod_unfold algebra_simps)
  finally show ?thesis .
qed

lemma second_term_der:
  assumes "mse_loss qs (map detach xs) = Num b"
  shows "der b = sum_list (map2 (\<lambda>q x. 2 * (val q - val x) * der q) qs xs) / real (length qs)"
proof -
  from assms have ne: "qs \<noteq> []"
    by (auto simp: mse_loss_def split: if_splits)
  from mse_loss_Num [OF ne, of "map detach xs"] assms have
    "der b = sum_list (map2 (\<lambda>a b. 2 * (val a - val b) * (der a - der b)) qs (map detach xs))
               / real (length qs)"
    by simp
  also have "map2 (\<lambda>a b. 2 * (val a - val b) * (der a - der b)) qs (map detach xs)
      = map2 (\<lambda>q x. 2 * (val q - val x) * der q) qs xs"
    by (simp add: zip_map2 case_prod_unfold algebra_simps)
  finally show ?thesis .
qed

text \<open>
  Claim C5, as the code has it.  Whenever the forward pass returns two numbers as its loss
  terms, the derivative of \<open>first_term\<close>, the mean squared error with the quantized tensor
  detached, is the mean of \<open>2 * (x - q)\<close> times the derivative of the input entry \<open>x\<close>: it
  depends on the perturbation of the encoder input only, and it is 0 along every
  perturbation of the codebook alone.  The derivative of \<open>second_term\<close>, the mean squared
  error with the input detached, is the mean of \<open>2 * (q - x)\<close> times the derivative of the
  quantized entry \<open>q\<close>, an entry of the codebook: it is 0 along every perturbation of the
  encoder input alone.
\<close>

theorem loss_terms_gradient_routing:
  assumes wf: "wf_vq m" and wt: "wf_tensor t" and l: "forward_locals m t = Inr l"
    and a: "first_term l = Num a" and b: "second_term l = Num b"
  shows "der a = sum_list (map2 (\<lambda>q x. 2 * (val x - val q) * der x)
                    (data (quantized_bhwc l)) (data (encoder_inputs l)))
                 / real (length (data (encoder_inputs l))) \<and>
         der b = sum_list (map2 (\<lambda>q x. 2 * (val q - val x) * der q)
                    (data (quantized_bhwc l)) (data (encoder_inputs l)))
                 / real (length (data (encoder_inputs l))) \<and>
         (list_all (\<lambda>x. der x = 0) (data t) \<longrightarrow> der a = 0) \<and>
         (list_all (list_all (\<lambda>e. der e = 0)) (weight m) \<longrightarrow> der b = 0)"
proof -
  let ?Q = "data (quantized_bhwc l)" and ?X = "data (encoder_inputs l)"
  from forward_locals_Inr [OF l] obtain B C H W where sh: "shape t = [B, C, H, W]"
    and t1: "first_term l = mse_loss (map detach ?Q) ?X"
    and t2: "second_term l = mse_loss ?Q (map detach ?X)"
    by auto
  from forward_locals_lengths [OF l sh] have len: "length ?Q = length ?X"
    by simp
  have da: "der a = sum_list (map2 (\<lambda>q x. 2 * (val x - val q) * der x) ?Q ?X) / real (length ?X)"
    using first_term_der [of ?Q ?X a] a t1 len by simp
  have db: "der b = sum_list (map2 (\<lambda>q x. 2 * (val q - val x) * der q) ?Q ?X) / real (length ?X)"
    using second_term_der [of ?Q ?X b] b t2 len by simp
  have za: "der a = 0" if "list_all (\<lambda>x. der x = 0) (data t)"
  proof -
    from list_all_encoder_inputs [OF l wt that] have X0: "\<And>x. x \<in> set ?X \<Longrightarrow> der x = 0"
      by (simp add: list_all_iff)
    have "sum_list (map2 (\<lambda>q x. 2 * (val x - val q) * der x) ?Q ?X) = 0"
      by (rule sum_list_map2_zero) (auto dest: set_zip_rightD X0)
    then show ?thesis by (simp add: da)
  qed
  have zb: "der b = 0" if "list_all (list_all (\<lambda>e. der e = 0)) (weight m)"
  proof -
    from list_all_quantized_bhwc [OF wf l that] have Q0: "\<And>q. q \<in> set ?Q \<Longrightarrow> der q = 0"
      by (simp add: list_all_iff)
    have "sum_list (map2 (\<lambda>q x. 2 * (val q - val x) * der q) ?Q ?X) = 0"
      by (rule sum_list_map2_zero) (auto dest: set_zip_leftD Q0)
    then show ?thesis by (simp add: db)
  qed
  from da db za zb show ?thesis by blast
qed

theorem loss_terms_gradient_routing_witness:
  "wf_vq example_vq \<and> wf_tensor example_in \<and>
   forward_locals example_vq example_in = Inr example_locals \<and>
   first_term example_locals = Num (Dual (7 / 4) (1 / 2)) \<and>
   second_term example_locals = Num (Dual (7 / 4) 0) \<and>
   list_all (list_all (\<lambda>e. der e = 0)) (weight example_vq) \<and>
   der (Dual (7 / 4) 0) = 0 \<and>
   der (Dual (7 / 4) (1 / 2))
     = sum_list (map2 (\<lambda>q x. 2 * (val x - val q) * der x)
         (data (quantized_bhwc example_locals)) (data (encoder_inputs example_locals)))
       / real (length (data (encoder_inputs example_locals))) \<and>
   wf_vq moved_vq \<and> wf_tensor still_in \<and>
   forward_locals moved_vq still_in = Inr moved_locals \<and>
   first_term moved_locals = Num (Dual (7 / 4) 0) \<and>
   second_term moved_locals = Num (Dual (7 / 4) (- (1 / 2))) \<and>
   list_all (\<lambda>x. der x = 0) (data still_in) \<and>
   der (Dual (7 / 4) (- (1 / 2)))
     = sum_list (map2 (\<lambda>q x. 2 * (val q - val x) * der q)
         (data (quantized_bhwc moved_locals)) (data (encoder_inputs moved_locals)))
       / real (length (data (encoder_inputs moved_locals)))"
proof -
  have 1: "wf_vq example_vq" "wf_tensor example_in"
    "forward_locals example_vq example_in = Inr example_locals"
    "first_term example_locals = Num (Dual (7 / 4) (1 / 2))"
    "second_term example_locals = Num (Dual (7 / 4) 0)"
    "list_all (list_all (\<lambda>e. der e = 0)) (weight example_vq)"
    by code_simp+
  have 2: "wf_vq moved_vq" "wf_tensor still_in"
    "forward_locals moved_vq still_in = Inr moved_locals"
    "first_term moved_locals = Num (Dual (7 / 4) 0)"
    "second_term moved_locals = Num (Dual (7 / 4) (- (1 / 2)))"
    "list_all (\<lambda>x. der x = 0) (data still_in)"
    by code_simp+
  from loss_terms_gradient_routing [OF 1(1-5)] 1(6) have
    a: "der (Dual (7 / 4) 0) = 0"
       "der (Dual (7 / 4) (1 / 2))
          = sum_list (map2 (\<lambda>q x. 2 * (val x - val q) * der x)
              (data (quantized_bhwc example_locals)) (data (encoder_inputs example_locals)))
            / real (length (data (encoder_inputs example_locals)))"
    by blast+
  from loss_terms_gradient_routing [OF 2(1-5)] have
    b: "der (Dual (7 / 4) (- (1 / 2)))
          = sum_list (map2 (\<lambda>q x. 2 * (val q - val x) * der q)
              (data (quantized_bhwc moved_locals)) (data (encoder_inputs moved_locals)))
            / real (length (data (encoder_inputs moved_locals)))"
    by blast
  from 1 2 a b show ?thesis by blast
qed

text \<open>
  Claim C5, as stated, fails.  With the codebook held constant and the first input entry
  perturbed, the term with the quantized tensor detached has the derivative 1 / 2, not 0,
  and the term with the input detached has the derivative 0.
\<close>

theorem first_term_moves_the_encoder:
  "list_all (list_all (\<lambda>e. der e = 0)) (weight example_vq) \<and>
   map der (data example_in) = [1, 0, 0, 0] \<and>
   forward_locals example_vq example_in = Inr example_locals \<and>
   first_term example_locals = Num (Dual (7 / 4) (1 / 2)) \<and>
   second_term example_locals = Num (Dual (7 / 4) 0) \<and>
   der (Dual (7 / 4) (1 / 2)) \<noteq> 0 \<and> der (Dual (7 / 4) 0) = 0"
  by code_simp


section \<open>The forward pass in rounded arithmetic\<close>

lemma round32_zero [simp]: "round32 0 = 0"
  by (simp add: round32_def)

lemma round32_binade:
  assumes "2 powr of_int k \<le> \<bar>x\<bar>" and "\<bar>x\<bar> < 2 powr (of_int k + 1)"
  shows "round32 x = of_int (rne (x / 2 powr (of_int k - 23))) * 2 powr (of_int k - 23)"
proof -
  have pos: "0 < \<bar>x\<bar>"
    by (rule less_le_trans [OF _ assms(1)]) simp
  then have "\<lfloor>log 2 \<bar>x\<bar>\<rfloor> = k"
    using assms by (simp add: floor_log_eq_powr_iff)
  with pos show ?thesis
    by (simp add: round32_def Let_def)
qed


subsection \<open>Exact arithmetic is the rounding that changes nothing\<close>

lemma sum_acc_id: "sum_acc id acc xs = acc + sum_list xs"
  by (induction xs arbitrary: acc) simp_all

lemma sum_sq_fl_id: "sum_sq_fl id (map val v) = val (sum_sq v)"
  by (simp add: sum_sq_fl_def sum_sq_def sum_acc_id val_sum_list comp_def power2_eq_square)

lemma dot_fl_id: "dot_fl id (map val u) (map val v) = val (dot u v)"
  by (simp add: dot_fl_def dot_def sum_acc_id val_sum_list zip_map_map comp_def case_prod_unfold)

lemma distance_fl_id:
  "distance_fl id (map val q) (map val e) = val (sum_sq q + sum_sq e - const 2 * dot q e)"
  by (simp add: distance_fl_def sum_sq_fl_id dot_fl_id)

lemma all_distances_fl_id:
  "all_distances_fl id (map (map val) flat) (map (map val) W) = map (map val) (all_distances flat W)"
  by (simp add: all_distances_fl_def all_distances_def distance_fl_id comp_def)

lemma indexes_fl_id:
  assumes "forward_locals m t = Inr l"
  shows "indexes_fl id m l = indexes l"
  using forward_locals_Inr [OF assms]
  by (auto simp: indexes_fl_def all_distances_fl_id comp_def)



subsection \<open>Values of binary32\<close>

lemma round32_values:
  "round32 1 = 1"
  "round32 16777216 = 16777216"
  "round32 16785409 = 16785408"
  "round32 16785408 = 16785408"
  "round32 16781312 = 16781312"
  "round32 33562624 = 33562624"
  "round32 33554432 = 33554432"
  "round32 (- 33554431) = - 33554432"
  using round32_binade [of 0 1] round32_binade [of 24 16777216] round32_binade [of 24 16785409]
    round32_binade [of 24 16785408] round32_binade [of 24 16781312]
    round32_binade [of 25 33562624] round32_binade [of 25 33554432]
    round32_binade [of 24 "- 33554431"]
  by (simp_all add: rne_def Let_def powr_minus)


subsection \<open>The index selected under a rounding\<close>

lemma indexes_fl_nth:
  assumes "n < length (flattened_inputs l)"
  shows "indexes_fl rnd m l ! n =
     argmin (map (\<lambda>e. distance_fl rnd (map val (flattened_inputs l ! n)) (map val e)) (weight m))"
  using assms by (simp add: indexes_fl_def all_distances_fl_def comp_def)

lemma length_indexes_fl [simp]: "length (indexes_fl rnd m l) = length (flattened_inputs l)"
  by (simp add: indexes_fl_def all_distances_fl_def)

lemma indexes_fl_less:
  assumes "n < length (flattened_inputs l)" and "weight m \<noteq> []"
  shows "indexes_fl rnd m l ! n < length (weight m)"
  using argmin_less [of "map (\<lambda>e. distance_fl rnd (map val (flattened_inputs l ! n)) (map val e)) (weight m)"]
    assms
  by (simp add: indexes_fl_nth)





subsection \<open>The one-hot product and the straight-through line under a rounding\<close>

lemma sum_acc_zero_row:
  assumes "rnd 0 = 0" and "rnd acc = acc"
  shows "sum_acc rnd acc (map2 (\<lambda>a brow. rnd (a * brow ! d)) (replicate n 0) W) = acc"
  using assms(2)
proof (induction W arbitrary: n)
  case Nil
  then show ?case by simp
next
  case (Cons r W)
  then show ?case using assms(1) by (cases n) simp_all
qed

lemma sum_acc_one_hot_row:
  assumes r0: "rnd 0 = 0"
  shows "i < length W \<Longrightarrow> length W = K \<Longrightarrow> (\<And>j. j < length W \<Longrightarrow> rnd (W ! j ! d) = W ! j ! d) \<Longrightarrow>
     sum_acc rnd 0 (map2 (\<lambda>a brow. rnd (a * brow ! d)) ((replicate K 0)[i := 1]) W) = W ! i ! d"
proof (induction W arbitrary: i K)
  case Nil
  then show ?case by simp
next
  case (Cons r W)
  then obtain K' where K: "K = Suc K'" and K': "length W = K'" by (cases K) auto
  have fr: "rnd (r ! d) = r ! d"
    using Cons.prems(3) [of 0] by simp
  show ?case
  proof (cases i)
    case 0
    then show ?thesis
      using sum_acc_zero_row [OF r0 fr, of d K' W] by (simp add: K fr)
  next
    case (Suc j)
    have "sum_acc rnd 0 (map2 (\<lambda>a brow. rnd (a * brow ! d)) ((replicate K' 0)[j := 1]) W) = W ! j ! d"
    proof (rule Cons.IH)
      show "j < length W" using Cons.prems(1) Suc by simp
      show "length W = K'" by (rule K')
      show "rnd (W ! k ! d) = W ! k ! d" if "k < length W" for k
        using Cons.prems(3) [of "Suc k"] that by simp
    qed
    with Suc show ?thesis by (simp add: K r0)
  qed
qed

lemma matmul_fl_one_hot:
  assumes r0: "rnd 0 = 0" and fixed: "list_all (list_all (\<lambda>e. rnd e = e)) W"
    and idx: "list_all (\<lambda>i. i < length W) idx" and rows: "list_all (\<lambda>row. length row = D) W"
  shows "matmul_fl rnd (one_hot_fl (length W) idx) W D = map (\<lambda>i. W ! i) idx"
proof -
  have "map (\<lambda>d. sum_acc rnd 0 (map2 (\<lambda>a brow. rnd (a * brow ! d)) ((replicate (length W) 0)[i := 1]) W)) [0..<D]
          = W ! i"
    if i: "i < length W" for i
  proof -
    have len: "length (W ! i) = D"
      using rows i by (simp add: list_all_length)
    have "sum_acc rnd 0 (map2 (\<lambda>a brow. rnd (a * brow ! d)) ((replicate (length W) 0)[i := 1]) W) = W ! i ! d"
      if d: "d < D" for d
    proof (rule sum_acc_one_hot_row [of rnd i W "length W" d, OF r0 i refl])
      fix j assume j: "j < length W"
      with rows d have "d < length (W ! j)" by (simp add: list_all_length)
      with fixed j show "rnd (W ! j ! d) = W ! j ! d" by (simp add: list_all_length)
    qed
    then have "map (\<lambda>d. sum_acc rnd 0 (map2 (\<lambda>a brow. rnd (a * brow ! d)) ((replicate (length W) 0)[i := 1]) W)) [0..<D]
        = map (\<lambda>d. W ! i ! d) [0..<D]"
      by simp
    also have "\<dots> = W ! i"
      using len by (metis map_nth)
    finally show ?thesis .
  qed
  then show ?thesis
    using idx by (simp add: matmul_fl_def one_hot_fl_def list_all_iff)
qed

lemma quantized_bhwc_fl_rows:
  assumes wf: "wf_vq m" and r0: "rnd 0 = 0"
    and fixed: "list_all (list_all (\<lambda>e. rnd (val e) = val e)) (weight m)"
  shows "matmul_fl rnd (one_hot_fl (num_embeddings m) (indexes_fl rnd m l))
           (map (map val) (weight m)) (embedding_dim m)
         = map (\<lambda>i. map val (weight m ! i)) (indexes_fl rnd m l)"
proof -
  let ?W = "map (map val) (weight m)"
  have K: "num_embeddings m = length ?W" and K0: "weight m \<noteq> []"
    and rows: "list_all (\<lambda>row. length row = embedding_dim m) ?W"
    using wf by (auto simp: wf_vq_def list_all_iff)
  have f: "list_all (list_all (\<lambda>e. rnd e = e)) ?W"
    using fixed by (simp add: list_all_iff)
  have i: "list_all (\<lambda>i. i < length ?W) (indexes_fl rnd m l)"
    unfolding list_all_length using indexes_fl_less [OF _ K0, of _ l rnd] by simp
  have "matmul_fl rnd (one_hot_fl (length ?W) (indexes_fl rnd m l)) ?W (embedding_dim m)
      = map (\<lambda>i. ?W ! i) (indexes_fl rnd m l)"
    by (rule matmul_fl_one_hot [OF r0 f i rows])
  also have "\<dots> = map (\<lambda>i. map val (weight m ! i)) (indexes_fl rnd m l)"
    using i by (auto simp: list_all_iff)
  finally show ?thesis by (simp only: K)
qed

lemma quantized_bhwc_fl_length:
  "length (quantized_bhwc_fl rnd m l) = length (flattened_inputs l) * embedding_dim m"
proof -
  have "list_all (\<lambda>xs. length xs = embedding_dim m)
          (matmul_fl rnd (one_hot_fl (num_embeddings m) (indexes_fl rnd m l))
             (map (map val) (weight m)) (embedding_dim m))"
    by (simp add: matmul_fl_def list_all_iff)
  from length_concat_uniform [OF this] show ?thesis
    by (simp add: quantized_bhwc_fl_def matmul_fl_def one_hot_fl_def)
qed

lemma quantized_bhwc_fl_nth:
  assumes wf: "wf_vq m" and r0: "rnd 0 = 0"
    and fixed: "list_all (list_all (\<lambda>e. rnd (val e) = val e)) (weight m)"
    and n: "n < length (flattened_inputs l)" and c: "c < embedding_dim m"
  shows "quantized_bhwc_fl rnd m l ! (n * embedding_dim m + c) = val (weight m ! (indexes_fl rnd m l ! n) ! c)"
proof -
  have K0: "weight m \<noteq> []"
    and rows: "list_all (\<lambda>row. length row = embedding_dim m) (weight m)"
    using wf by (auto simp: wf_vq_def)
  have k: "indexes_fl rnd m l ! n < length (weight m)"
    by (rule indexes_fl_less [OF n K0])
  then have lk: "length (weight m ! (indexes_fl rnd m l ! n)) = embedding_dim m"
    using rows by (simp add: list_all_length)
  have u: "list_all (\<lambda>xs. length xs = embedding_dim m)
             (map (\<lambda>i. map val (weight m ! i)) (indexes_fl rnd m l))"
    unfolding list_all_length
  proof (intro allI impI)
    fix j assume "j < length (map (\<lambda>i. map val (weight m ! i)) (indexes_fl rnd m l))"
    then have j: "j < length (flattened_inputs l)" by simp
    from indexes_fl_less [OF j K0] rows
    show "length (map (\<lambda>i. map val (weight m ! i)) (indexes_fl rnd m l) ! j) = embedding_dim m"
      using j by (simp add: list_all_length)
  qed
  from nth_concat_uniform [OF u, of n c] n c lk show ?thesis
    by (simp add: quantized_bhwc_fl_def quantized_bhwc_fl_rows [OF wf r0 fixed])
qed

lemma straight_through_fl_nth:
  assumes "k < length xs" and "k < length qs"
  shows "straight_through_fl rnd xs qs ! k = rnd (xs ! k + rnd (qs ! k - xs ! k))"
  using assms by (simp add: straight_through_fl_def)

lemma length_quantized_fl:
  assumes l: "forward_locals m t = Inr l" and sh: "shape t = [B, C, H, W]"
  shows "length (quantized_fl rnd m l) = B * C * H * W"
  using forward_locals_Inr [OF l] sh by (auto simp: quantized_fl_def)

lemma quantized_fl_nth:
  assumes l: "forward_locals m t = Inr l" and sh: "shape t = [B, C, H, W]"
    and b: "b < B" "c < C" "h < H" "w < W"
  shows "quantized_fl rnd m l ! ravel4 C H W b c h w =
           rnd (val (entry4 t b c h w)
                + rnd (quantized_bhwc_fl rnd m l ! ravel4 H W C b h w c - val (entry4 t b c h w)))"
proof -
  from forward_locals_Inr [OF l] sh have
    x: "encoder_inputs l = \<lparr>shape = [B, H, W, C],
         data = tabulate4 B H W C (\<lambda>b h w c. data t ! ravel4 C H W b c h w)\<rparr>"
    by auto
  from forward_locals_lengths [OF l sh] have
    lx: "length (data (encoder_inputs l)) = B * H * W * C" and
    lf: "length (flattened_inputs l) = (B * H * W * C) div embedding_dim m" and
    lq: "length (data (quantized_bhwc l)) = B * H * W * C" and D: "0 < embedding_dim m"
    by simp_all
  from forward_locals_Inr [OF l] have
    "view_rows (embedding_dim m) (encoder_inputs l) = Inr (flattened_inputs l)" by auto
  from view_rows_Inr(2) [OF this] lx have md: "(B * H * W * C) mod embedding_dim m = 0"
    by simp
  have "length (quantized_bhwc_fl rnd m l) = (B * H * W * C) div embedding_dim m * embedding_dim m"
    by (simp add: quantized_bhwc_fl_length lf)
  also have "\<dots> = B * H * W * C"
    using md by (metis add.right_neutral div_mult_mod_eq)
  finally have lqf: "length (quantized_bhwc_fl rnd m l) = B * H * W * C" .
  have r: "ravel4 H W C b h w c < B * H * W * C"
    using b by (intro ravel4_less)
  have "quantized_fl rnd m l ! ravel4 C H W b c h w
      = straight_through_fl rnd (map val (data (encoder_inputs l))) (quantized_bhwc_fl rnd m l)
          ! ravel4 H W C b h w c"
    using b by (simp add: quantized_fl_def x nth_tabulate4)
  also have "\<dots> = rnd (map val (data (encoder_inputs l)) ! ravel4 H W C b h w c
       + rnd (quantized_bhwc_fl rnd m l ! ravel4 H W C b h w c
               - map val (data (encoder_inputs l)) ! ravel4 H W C b h w c))"
    by (rule straight_through_fl_nth) (use r lx lqf in simp_all)
  also have "map val (data (encoder_inputs l)) ! ravel4 H W C b h w c = val (entry4 t b c h w)"
    using b r by (simp add: x nth_tabulate4 entry4_def sh)
  finally show "quantized_fl rnd m l ! ravel4 C H W b c h w =
           rnd (val (entry4 t b c h w)
                + rnd (quantized_bhwc_fl rnd m l ! ravel4 H W C b h w c - val (entry4 t b c h w)))" .
qed


lemma quantized_bhwc_fl_id:
  assumes wf: "wf_vq m" and l: "forward_locals m t = Inr l"
  shows "quantized_bhwc_fl id m l = map val (data (quantized_bhwc l))"
proof -
  have fixed: "list_all (list_all (\<lambda>e. id (val e) = val e)) (weight m)"
    by (simp add: list_all_iff)
  from forward_locals_Inr [OF l] have
    q: "data (quantized_bhwc l) = concat (matmul (encodings l) (weight m) (embedding_dim m))"
    by auto
  have "matmul_fl id (one_hot_fl (num_embeddings m) (indexes_fl id m l))
           (map (map val) (weight m)) (embedding_dim m)
         = map (\<lambda>i. map val (weight m ! i)) (indexes_fl id m l)"
    by (rule quantized_bhwc_fl_rows [OF wf _ fixed]) simp
  then have "quantized_bhwc_fl id m l = concat (map (\<lambda>i. map val (weight m ! i)) (indexes l))"
    by (simp only: quantized_bhwc_fl_def indexes_fl_id [OF l])
  also have "\<dots> = map val (data (quantized_bhwc l))"
    by (simp add: q quantized_bhwc_rows [OF wf l] map_concat comp_def)
  finally show ?thesis .
qed

lemma quantized_fl_id:
  assumes wf: "wf_vq m" and l: "forward_locals m t = Inr l"
  shows "quantized_fl id m l = map val (data (quantized l))"
proof -
  from forward_locals_Inr [OF l] obtain B C H W where sh: "shape t = [B, C, H, W]"
    by auto
  from forward_locals_quantized_shape [OF l sh] have
    qs: "shape (quantized l) = [B, C, H, W]" and ql: "length (data (quantized l)) = B * C * H * W"
    by simp_all
  from forward_locals_Inr [OF l] sh have bs: "shape (quantized_bhwc l) = [B, H, W, C]"
    by auto
  from forward_locals_lengths [OF l sh] have
    lq: "length (data (quantized_bhwc l)) = B * H * W * C"
    by simp
  show ?thesis
  proof (rule nth_equalityI)
    show "length (quantized_fl id m l) = length (map val (data (quantized l)))"
      by (simp add: length_quantized_fl [OF l sh] ql)
  next
    fix k assume "k < length (quantized_fl id m l)"
    then have k: "k < B * C * H * W"
      by (simp add: length_quantized_fl [OF l sh])
    from unravel4 [OF k] obtain b c h w where
      b: "b < B" "c < C" "h < H" "w < W" and kr: "k = ravel4 C H W b c h w"
      by blast
    have r: "ravel4 H W C b h w c < B * H * W * C"
      using b by (intro ravel4_less)
    have "quantized_fl id m l ! k = quantized_bhwc_fl id m l ! ravel4 H W C b h w c"
      by (simp add: kr quantized_fl_nth [OF l sh b])
    also have "\<dots> = val (data (quantized_bhwc l) ! ravel4 H W C b h w c)"
      using r lq by (simp add: quantized_bhwc_fl_id [OF wf l])
    also have "\<dots> = val (entry4 (quantized_bhwc l) b h w c)"
      by (simp add: entry4_def bs)
    also have "\<dots> = val (entry4 (quantized l) b c h w)"
      by (simp add: quantized_entry [OF l sh b])
    also have "\<dots> = val (data (quantized l) ! k)"
      by (simp add: entry4_def qs kr)
    finally show "quantized_fl id m l ! k = map val (data (quantized l)) ! k"
      using k ql by simp
  qed
qed

text \<open>
  Claim C2, as the code has it.  For an input of shape (B, D, H, W) with D the embedding
  dimension, and for every rounding that leaves 0 and the entries of the codebook as they
  are, the forward pass returns, and at every position \<open>(b, h, w)\<close> and channel \<open>c\<close>: the row
  of the rounded product of the one-hot matrix with the codebook is the codebook row at the
  selected index \<open>k\<close>; the quantized tensor holds that row's entry \<open>e\<close>; the tensor returned
  holds the rounded straight-through value \<open>rnd (x + rnd (e - x))\<close>, with \<open>x\<close> the entry of the
  input.  In exact arithmetic the returned values are those of the pass, and the returned
  entry is the entry of the selected codebook row.
\<close>

theorem returned_quantized_is_rounded_straight_through:
  assumes wf: "wf_vq m" and sh: "shape t = [B, embedding_dim m, H, W]"
    and b: "b < B" "c < embedding_dim m" "h < H" "w < W"
    and r0: "rnd 0 = 0"
    and fixed: "list_all (list_all (\<lambda>e. rnd (val e) = val e)) (weight m)"
  shows "\<exists>l. forward_locals m t = Inr l \<and> forward m t = Inr (quantized l, loss l) \<and>
    quantized_fl id m l = map val (data (quantized l)) \<and>
    length (quantized_fl rnd m l) = B * embedding_dim m * H * W \<and>
    (let n = (b * H + h) * W + w;
         k = indexes_fl rnd m l ! n;
         x = val (entry4 t b c h w);
         e = val (weight m ! k ! c)
     in k < num_embeddings m \<and>
        matmul_fl rnd (one_hot_fl (num_embeddings m) (indexes_fl rnd m l))
            (map (map val) (weight m)) (embedding_dim m) ! n
          = map val (weight m ! k) \<and>
        quantized_bhwc_fl rnd m l ! (n * embedding_dim m + c) = e \<and>
        quantized_fl rnd m l ! ravel4 (embedding_dim m) H W b c h w = rnd (x + rnd (e - x)) \<and>
        quantized_fl id m l ! ravel4 (embedding_dim m) H W b c h w
          = val (weight m ! (indexes l ! n) ! c))"
proof -
  from wf_vq_returns [OF wf sh] obtain l where l: "forward_locals m t = Inr l" ..
  let ?D = "embedding_dim m"
  let ?n = "(b * H + h) * W + w"
  let ?k = "indexes_fl rnd m l ! ?n"
  have K: "length (weight m) = num_embeddings m" and K0: "weight m \<noteq> []"
    using wf by (auto simp: wf_vq_def)
  from flattened_inputs_row(1) [OF l sh b(1,3,4)] have
    len: "length (flattened_inputs l) = B * H * W" .
  have n: "?n < length (flattened_inputs l)"
    unfolding len using b(1,3,4) by (rule row_index_less)
  have kK: "?k < num_embeddings m"
    using indexes_fl_less [OF n K0] K by simp
  have rv: "ravel4 H W ?D b h w c = ?n * ?D + c"
    by (simp add: ravel4_def)
  have 1: "matmul_fl rnd (one_hot_fl (num_embeddings m) (indexes_fl rnd m l))
             (map (map val) (weight m)) ?D ! ?n = map val (weight m ! ?k)"
    using n by (simp add: quantized_bhwc_fl_rows [OF wf r0 fixed])
  have 2: "quantized_bhwc_fl rnd m l ! (?n * ?D + c) = val (weight m ! ?k ! c)"
    by (rule quantized_bhwc_fl_nth [OF wf r0 fixed n b(2)])
  have 3: "quantized_fl rnd m l ! ravel4 ?D H W b c h w
        = rnd (val (entry4 t b c h w) + rnd (val (weight m ! ?k ! c) - val (entry4 t b c h w)))"
    by (simp add: quantized_fl_nth [OF l sh b] rv 2)
  have "ravel4 ?D H W b c h w < B * ?D * H * W"
    using b by (intro ravel4_less)
  then have "quantized_fl id m l ! ravel4 ?D H W b c h w = val (entry4 (quantized l) b c h w)"
    using forward_locals_quantized_shape [OF l sh]
    by (simp add: quantized_fl_id [OF wf l] entry4_def)
  also have "\<dots> = val (entry4 (quantized_bhwc l) b h w c)"
    by (simp add: quantized_entry [OF l sh b])
  also have "\<dots> = val (weight m ! (indexes l ! ?n) ! c)"
  proof -
    have qs: "shape (quantized_bhwc l) = [B, H, W, ?D]"
      using forward_locals_Inr [OF l] sh by auto
    have "?n < length (indexes l)"
      using forward_locals_lengths(3,5) [OF l sh] n len by simp
    from quantized_bhwc_nth [OF wf l this b(2)] show ?thesis
      by (simp add: entry4_def qs rv)
  qed
  finally have 4: "quantized_fl id m l ! ravel4 ?D H W b c h w = val (weight m ! (indexes l ! ?n) ! c)" .
  show ?thesis
    using l forward_eq [OF l] quantized_fl_id [OF wf l] length_quantized_fl [OF l sh] kK 1 2 3 4
    by (auto simp: Let_def)
qed

theorem returned_quantized_is_rounded_straight_through_witness:
  "wf_vq absorb_vq \<and> shape absorb_in = [1, embedding_dim absorb_vq, 1, 1] \<and>
   (0::nat) < embedding_dim absorb_vq \<and> round32 0 = 0 \<and>
   list_all (list_all (\<lambda>e. round32 (val e) = val e)) (weight absorb_vq) \<and>
   (\<exists>l. forward_locals absorb_vq absorb_in = Inr l \<and>
      forward absorb_vq absorb_in = Inr (quantized l, loss l) \<and>
      quantized_fl id absorb_vq l = map val (data (quantized l)) \<and>
      length (quantized_fl round32 absorb_vq l) = 1 * embedding_dim absorb_vq * 1 * 1 \<and>
      (let n = (0 * 1 + 0) * 1 + 0;
           k = indexes_fl round32 absorb_vq l ! n;
           x = val (entry4 absorb_in 0 0 0 0);
           e = val (weight absorb_vq ! k ! 0)
       in k < num_embeddings absorb_vq \<and>
          matmul_fl round32 (one_hot_fl (num_embeddings absorb_vq) (indexes_fl round32 absorb_vq l))
              (map (map val) (weight absorb_vq)) (embedding_dim absorb_vq) ! n
            = map val (weight absorb_vq ! k) \<and>
          quantized_bhwc_fl round32 absorb_vq l ! (n * embedding_dim absorb_vq + 0) = e \<and>
          quantized_fl round32 absorb_vq l ! ravel4 (embedding_dim absorb_vq) 1 1 0 0 0 0
            = round32 (x + round32 (e - x)) \<and>
          quantized_fl id absorb_vq l ! ravel4 (embedding_dim absorb_vq) 1 1 0 0 0 0
            = val (weight absorb_vq ! (indexes l ! n) ! 0)))"
proof -
  have 1: "wf_vq absorb_vq" by code_simp
  have 2: "shape absorb_in = [1, embedding_dim absorb_vq, 1, 1]" by code_simp
  have 3: "(0::nat) < 1" by simp
  have 4: "(0::nat) < embedding_dim absorb_vq" by code_simp
  have 5: "round32 0 = 0" by simp
  have 6: "list_all (list_all (\<lambda>e. round32 (val e) = val e)) (weight absorb_vq)"
    by (simp add: absorb_vq_def round32_values)
  from returned_quantized_is_rounded_straight_through [OF 1 2 3 4 3 3 5 6] 1 2 4 5 6
  show ?thesis by blast
qed

text \<open>
  Claim C2, as stated, fails in binary32.  With the codebook row (1) and the input
  \<open>2^25\<close>, the difference \<open>1 - 2^25\<close> rounds to \<open>- 2^25\<close>, and the tensor returned holds 0,
  not the 1 of the selected row.
\<close>

theorem float32_straight_through_loses_the_row:
  "wf_vq absorb_vq \<and> wf_tensor absorb_in \<and>
   forward_locals absorb_vq absorb_in = Inr absorb_locals \<and>
   map val (data absorb_in) = [33554432] \<and>
   map (map val) (weight absorb_vq) = [[1]] \<and>
   indexes_fl round32 absorb_vq absorb_locals = [0] \<and>
   quantized_bhwc_fl round32 absorb_vq absorb_locals = [1] \<and>
   quantized_fl round32 absorb_vq absorb_locals = [0] \<and>
   quantized_fl round32 absorb_vq absorb_locals
     \<noteq> map val (weight absorb_vq ! (indexes_fl round32 absorb_vq absorb_locals ! 0))"
proof -
  have 1: "wf_vq absorb_vq" "wf_tensor absorb_in"
    "forward_locals absorb_vq absorb_in = Inr absorb_locals"
    "map val (data absorb_in) = [33554432]"
    "map (map val) (weight absorb_vq) = [[1]]"
    "map val (weight absorb_vq ! 0) = [1]"
    "num_embeddings absorb_vq = 1" "embedding_dim absorb_vq = 1"
    by code_simp+
  have f: "flattened_inputs absorb_locals = [[Dual 33554432 0]]"
    "encoder_inputs absorb_locals = \<lparr>shape = [1, 1, 1, 1], data = [Dual 33554432 0]\<rparr>"
    by (simp_all add: absorb_locals_def)
  have 2: "indexes_fl round32 absorb_vq absorb_locals = [0]"
    by (simp add: indexes_fl_def all_distances_fl_def f 1(5))
  have 3: "quantized_bhwc_fl round32 absorb_vq absorb_locals = [1]"
    by (simp add: quantized_bhwc_fl_def matmul_fl_def one_hot_fl_def 2 1(5,7,8) round32_values)
  have 4: "quantized_fl round32 absorb_vq absorb_locals = [0]"
    by (simp add: quantized_fl_def f 3 tabulate4_def straight_through_fl_def ravel4_def
        round32_values)
  show ?thesis
    by (simp add: 1 2 3 4)
qed


section \<open>Properties of the mask\<close>

lemma np_index_less: "np_index n i = Inr k \<Longrightarrow> k < n"
  by (auto simp: np_index_def split: if_splits)

lemma length_mask_loops [simp]: "length (mask_loops n x y) = n"
  by (simp add: mask_loops_def)

lemma length_mask_loops_row [simp]: "i < n \<Longrightarrow> length (mask_loops n x y ! i) = n"
  by (simp add: mask_loops_def)

lemma conv_mask_abstract_Inr:
  assumes "conv_mask_abstract sz (x, y) t = Inr g"
  shows "\<exists>yi xi. 0 \<le> sz \<and> np_index (nat sz) y = Inr yi \<and> np_index (nat sz) x = Inr xi \<and>
           g = (mask_loops (nat sz) x y)[yi := (mask_loops (nat sz) x y ! yi)[xi := (if t = ''B'' then 1 else 0)]]"
  using assms
  by (auto simp: conv_mask_abstract_def Let_def split: if_splits sum.splits)

lemma conv_mask_abstract_returns:
  "(\<exists>g. conv_mask_abstract sz (x, y) t = Inr g) \<longleftrightarrow>
     0 \<le> sz \<and> - sz \<le> x \<and> x < sz \<and> - sz \<le> y \<and> y < sz"
  by (auto simp: conv_mask_abstract_def np_index_def Let_def split: sum.splits)

text \<open>
  Claim C9.  Whenever \<open>conv_mask_abstract\<close> returns a grid for mask type \<open>"B"\<close> and for mask
  type \<open>"A"\<close> at the same size and current position, the two grids agree at every entry
  except the current position \<open>[y][x]\<close> itself, where the type-B grid holds 1 and the type-A
  grid holds 0.
\<close>

theorem conv_mask_B_A_differ_only_at_current_pos:
  assumes B: "conv_mask_abstract sz (x, y) ''B'' = Inr gB"
      and A: "conv_mask_abstract sz (x, y) ''A'' = Inr gA"
  shows "\<exists>yi xi. np_index (nat sz) y = Inr yi \<and> np_index (nat sz) x = Inr xi \<and>
           gB ! yi ! xi = 1 \<and> gA ! yi ! xi = 0 \<and>
           (\<forall>i < nat sz. \<forall>j < nat sz. (i, j) \<noteq> (yi, xi) \<longrightarrow> gB ! i ! j = gA ! i ! j)"
proof -
  from conv_mask_abstract_Inr [OF B] obtain yi xi where
    iy: "np_index (nat sz) y = Inr yi" and ix: "np_index (nat sz) x = Inr xi" and
    gB: "gB = (mask_loops (nat sz) x y)[yi := (mask_loops (nat sz) x y ! yi)[xi := 1]]"
    by auto
  from conv_mask_abstract_Inr [OF A] iy ix have
    gA: "gA = (mask_loops (nat sz) x y)[yi := (mask_loops (nat sz) x y ! yi)[xi := 0]]"
    by auto
  have yi: "yi < nat sz" and xi: "xi < nat sz"
    using iy ix by (auto dest: np_index_less)
  have "gB ! yi ! xi = 1" "gA ! yi ! xi = 0"
    using yi xi by (simp_all add: gB gA)
  moreover have "gB ! i ! j = gA ! i ! j" if "i < nat sz" "j < nat sz" "(i, j) \<noteq> (yi, xi)" for i j
    using that yi xi by (cases "i = yi") (auto simp: gB gA)
  ultimately show ?thesis using iy ix by blast
qed

theorem conv_mask_B_A_differ_only_at_current_pos_witness:
  "conv_mask_abstract 3 (1, 1) ''B'' = Inr [[1, 1, 1], [1, 1, 0], [1, 0, 0]] \<and>
   conv_mask_abstract 3 (1, 1) ''A'' = Inr [[1, 1, 1], [1, 0, 0], [1, 0, 0]] \<and>
   (\<exists>yi xi. np_index (nat 3) 1 = Inr yi \<and> np_index (nat 3) 1 = Inr xi \<and>
      [[1, 1, 1], [1, 1, 0], [1, 0, 0::real]] ! yi ! xi = 1 \<and>
      [[1, 1, 1], [1, 0, 0], [1, 0, 0::real]] ! yi ! xi = 0 \<and>
      (\<forall>i < nat 3. \<forall>j < nat 3. (i, j) \<noteq> (yi, xi) \<longrightarrow>
         [[1, 1, 1], [1, 1, 0], [1, 0, 0::real]] ! i ! j = [[1, 1, 1], [1, 0, 0], [1, 0, 0]] ! i ! j))"
proof -
  have B: "conv_mask_abstract 3 (1, 1) ''B'' = Inr [[1, 1, 1], [1, 1, 0], [1, 0, 0]]"
    by (simp add: conv_mask_abstract_def mask_loops_def np_index_def Let_def upt_conv_Cons)
  have A: "conv_mask_abstract 3 (1, 1) ''A'' = Inr [[1, 1, 1], [1, 0, 0], [1, 0, 0]]"
    by (simp add: conv_mask_abstract_def mask_loops_def np_index_def Let_def upt_conv_Cons)
  show ?thesis
    using conv_mask_B_A_differ_only_at_current_pos [OF B A] B A by blast
qed


section \<open>The constructor of \<open>MaskedConv2d\<close> never completes\<close>

lemma register_buffer_after_set_mask:
  "set_mask g self = Inr self' \<Longrightarrow> register_buffer ''mask'' self' = Inl KeyError"
  by (auto simp: set_mask_def register_buffer_def split: if_splits)

lemma MaskedConv2d_init_rest_raises: "\<exists>e. MaskedConv2d_init_rest mask_type self v = Inl e"
  by (auto simp: MaskedConv2d_init_rest_def Let_def register_buffer_after_set_mask
      split: sum.splits prod.splits)

text \<open>
  Claim C10.  Whatever the mask type and whatever the parent constructor did, the
  constructor of \<open>MaskedConv2d\<close> ends in an exception: the parent's own, or the \<open>TypeError\<close>
  of calling \<open>self.weight.shape\<close>, a tuple.  The lines after that call would raise as well,
  whatever the call returned: at the latest \<open>register_buffer\<close> refuses the name \<open>mask\<close>,
  which the line before has assigned as a plain attribute.  So no instance exists on which
  \<open>forward\<close> could run.
\<close>

theorem MaskedConv2d_init_always_raises:
  "(\<exists>e. MaskedConv2d_init mask_type super_init = Inl e) \<and>
   MaskedConv2d_init mask_type (Inr self) = Inl TypeError \<and>
   (\<exists>e. MaskedConv2d_init_rest mask_type self v = Inl e)"
proof -
  have 1: "MaskedConv2d_init mask_type (Inr s) = Inl TypeError" for s
    by (simp add: MaskedConv2d_init_def py_call_def)
  have 2: "\<exists>e. MaskedConv2d_init mask_type super_init = Inl e"
    by (cases super_init) (simp_all add: 1, simp add: MaskedConv2d_init_def)
  from 1 2 MaskedConv2d_init_rest_raises show ?thesis by blast
qed

end
